theory Spec2Isabelle
  imports Main
begin

section \<open>Game logic (script.js)\<close>

subsection \<open>Constants and letter states\<close>

definition WORD_LENGTH :: nat where
  "WORD_LENGTH = 5"

definition MAX_GUESSES :: nat where
  "MAX_GUESSES = 6"

text \<open>The three strings \<open>'correct'\<close>, \<open>'present'\<close> and \<open>'absent'\<close> that fill a result array.\<close>

datatype letter_state = correct | present | absent

subsection \<open>JavaScript arrays of one-character strings\<close>

text \<open>
  \<open>split('')\<close> turns a string into an array of one-character strings; \<open>evaluateGuess\<close>
  then overwrites cells with \<open>null\<close>. Reading past the end of an array gives
  \<open>undefined\<close>; writing past the end extends the array, leaving holes, which read as
  \<open>undefined\<close> and which \<open>indexOf\<close> skips.
\<close>

datatype jsval = JUndefined | JNull | JHole | JChar char

definition jsGet :: "jsval list \<Rightarrow> nat \<Rightarrow> jsval" where
  "jsGet xs i =
     (if i < length xs then (case xs ! i of JHole \<Rightarrow> JUndefined | v \<Rightarrow> v) else JUndefined)"

definition jsSet :: "jsval list \<Rightarrow> nat \<Rightarrow> jsval \<Rightarrow> jsval list" where
  "jsSet xs i v =
     (if i < length xs then xs[i := v] else xs @ replicate (i - length xs) JHole @ [v])"

text \<open>\<open>Array.prototype.indexOf\<close>: the first index holding a strictly equal value; \<open>-1\<close> is \<open>None\<close>.\<close>

fun indexOf :: "jsval list \<Rightarrow> jsval \<Rightarrow> nat option" where
  "indexOf [] v = None"
| "indexOf (x # xs) v =
     (if x = v \<and> x \<noteq> JHole then Some 0 else map_option Suc (indexOf xs v))"

subsection \<open>evaluateGuess\<close>

text \<open>The loop state: \<open>(result, targetArr, guessArr)\<close>.\<close>

type_synonym eval_state = "letter_state list \<times> jsval list \<times> jsval list"

text \<open>Body of the first loop (``First pass: correct''). \<open>result\<close> has \<open>WORD_LENGTH\<close> cells
  and \<open>i < WORD_LENGTH\<close>, so the write to \<open>result[i]\<close> is always in range.\<close>

definition correctStep :: "nat \<Rightarrow> eval_state \<Rightarrow> eval_state" where
  "correctStep i s =
     (case s of (result, targetArr, guessArr) \<Rightarrow>
        if jsGet guessArr i = jsGet targetArr i
        then (result[i := correct], jsSet targetArr i JNull, jsSet guessArr i JNull)
        else s)"

text \<open>Body of the second loop (``Second pass: present'').\<close>

definition presentStep :: "nat \<Rightarrow> eval_state \<Rightarrow> eval_state" where
  "presentStep i s =
     (case s of (result, targetArr, guessArr) \<Rightarrow>
        if jsGet guessArr i = JNull then s
        else (case indexOf targetArr (jsGet guessArr i) of
                None \<Rightarrow> s
              | Some idx \<Rightarrow> (result[i := present], jsSet targetArr idx JNull, guessArr)))"

definition evaluateGuess :: "string \<Rightarrow> string \<Rightarrow> letter_state list" where
  "evaluateGuess guess target =
     fst (fold presentStep [0..<WORD_LENGTH]
            (fold correctStep [0..<WORD_LENGTH]
               (replicate WORD_LENGTH absent, map JChar target, map JChar guess)))"

text \<open>Number of positions of \<open>guess\<close> that hold the letter \<open>X\<close> and are marked with a
  state satisfying \<open>P\<close>.\<close>

definition marksFor :: "(letter_state \<Rightarrow> bool) \<Rightarrow> char \<Rightarrow> string \<Rightarrow> letter_state list \<Rightarrow> nat" where
  "marksFor P X guess res =
     length (filter (\<lambda>i. guess ! i = X \<and> P (res ! i)) [0..<length res])"

subsection \<open>Strings\<close>

text \<open>
  Letters of the game are ASCII: \<open>handleKey\<close> accepts a key only when it matches
  \<open>/^[a-z]$/i\<close>. \<open>toUpperCase\<close> and \<open>toLowerCase\<close> are modelled on ASCII, where they
  change the 26 letters and nothing else.
\<close>

definition isUpper :: "char \<Rightarrow> bool" where
  "isUpper c = (65 \<le> (of_char c :: nat) \<and> (of_char c :: nat) \<le> 90)"

definition isLower :: "char \<Rightarrow> bool" where
  "isLower c = (97 \<le> (of_char c :: nat) \<and> (of_char c :: nat) \<le> 122)"

definition isAlpha :: "char \<Rightarrow> bool" where
  "isAlpha c = (isUpper c \<or> isLower c)"

definition upperChar :: "char \<Rightarrow> char" where
  "upperChar c = (if isLower c then char_of ((of_char c :: nat) - 32) else c)"

definition lowerChar :: "char \<Rightarrow> char" where
  "lowerChar c = (if isUpper c then char_of ((of_char c :: nat) + 32) else c)"

definition toUpperCase :: "string \<Rightarrow> string" where
  "toUpperCase s = map upperChar s"

definition toLowerCase :: "string \<Rightarrow> string" where
  "toLowerCase s = map lowerChar s"

text \<open>\<open>s[i]\<close> on a string: a one-character string, or \<open>undefined\<close> (\<open>None\<close>) out of range.\<close>

definition jsCharAt :: "string \<Rightarrow> nat \<Rightarrow> string option" where
  "jsCharAt s i = (if i < length s then Some [s ! i] else None)"

text \<open>A value that is a string or \<open>undefined\<close>, converted to a string (in a template
  literal, or when used as a property key).\<close>

definition toStr :: "string option \<Rightarrow> string" where
  "toStr v = (case v of None \<Rightarrow> ''undefined'' | Some s \<Rightarrow> s)"

function showNat :: "nat \<Rightarrow> string" where
  "showNat n = (if n < 10 then [char_of (48 + n)] else showNat (n div 10) @ [char_of (48 + n mod 10)])"
  by pat_completeness auto
termination
  by (relation "measure id") auto

text \<open>\<open>['1st','2nd','3rd','4th','5th'][n - 1] || `${n}th`\<close>\<close>

definition ordinal :: "nat \<Rightarrow> string" where
  "ordinal n =
     (if 1 \<le> n \<and> n \<le> 5 then [''1st'', ''2nd'', ''3rd'', ''4th'', ''5th''] ! (n - 1)
      else showNat n @ ''th'')"

subsection \<open>Word validation\<close>

text \<open>\<open>ALL_VALID_WORDS\<close> is defined outside the files at hand; it is a parameter here.\<close>

definition isValidWord :: "string list \<Rightarrow> string \<Rightarrow> bool" where
  "isValidWord ALL_VALID_WORDS word = (toLowerCase word \<in> set ALL_VALID_WORDS)"

subsection \<open>Hard-mode constraints\<close>

text \<open>
  \<open>exactPositions\<close> is an object keyed by positions; \<open>Object.entries\<close> lists integer keys
  in ascending order, so the entries are kept sorted by key. Its values are what
  \<open>guess[i]\<close> gave. \<open>mustContain\<close> is an array of \<open>{letter, minCount}\<close> records.
\<close>

record hard_constraints =
  exactPositions :: "(nat \<times> string option) list"
  mustContain :: "(string \<times> nat) list"

text \<open>\<open>obj[k] = v\<close> on an object with integer keys.\<close>

fun objPut :: "nat \<Rightarrow> 'v \<Rightarrow> (nat \<times> 'v) list \<Rightarrow> (nat \<times> 'v) list" where
  "objPut k v [] = [(k, v)]"
| "objPut k v ((k', v') # es) =
     (if k = k' then (k, v) # es
      else if k < k' then (k, v) # (k', v') # es
      else (k', v') # objPut k v es)"

text \<open>\<open>freqMap[key] = (freqMap[key] || 0) + 1\<close> on an object with string keys, kept in
  insertion order.\<close>

fun bump :: "string \<Rightarrow> (string \<times> nat) list \<Rightarrow> (string \<times> nat) list" where
  "bump k [] = [(k, 1)]"
| "bump k ((k', n) # es) = (if k = k' then (k', n + 1) # es else (k', n) # bump k es)"

text \<open>\<open>Object.entries\<close> of an object with string keys: the keys that are array indices
  (here: a single digit) come first, in ascending numeric order, then the other keys in
  insertion order.\<close>

definition isIndexKey :: "string \<Rightarrow> bool" where
  "isIndexKey k = (length k = 1 \<and> 48 \<le> (of_char (hd k) :: nat) \<and> (of_char (hd k) :: nat) \<le> 57)"

definition objectEntries :: "(string \<times> nat) list \<Rightarrow> (string \<times> nat) list" where
  "objectEntries es =
     sort_key (\<lambda>e. (of_char (hd (fst e)) :: nat)) (filter (\<lambda>e. isIndexKey (fst e)) es)
     @ filter (\<lambda>e. \<not> isIndexKey (fst e)) es"

text \<open>The body of the last loop of \<open>updateHardConstraints\<close>: \<open>find\<close> the first record of
  the letter and raise its \<open>minCount\<close>, or \<open>push\<close> a new record.\<close>

fun mergeMin :: "string \<Rightarrow> nat \<Rightarrow> (string \<times> nat) list \<Rightarrow> (string \<times> nat) list" where
  "mergeMin letter count [] = [(letter, count)]"
| "mergeMin letter count ((l, m) # cs) =
     (if l = letter then (l, max m count) # cs else (l, m) # mergeMin letter count cs)"

definition isMarked :: "letter_state \<Rightarrow> bool" where
  "isMarked r = (r = correct \<or> r = present)"

definition greenPositions ::
  "string \<Rightarrow> letter_state list \<Rightarrow> (nat \<times> string option) list \<Rightarrow> (nat \<times> string option) list" where
  "greenPositions guess result ep =
     fold (\<lambda>i ep. if result ! i = correct then objPut i (jsCharAt guess i) ep else ep)
       [0..<length result] ep"

definition freqMapOf :: "string \<Rightarrow> letter_state list \<Rightarrow> (string \<times> nat) list" where
  "freqMapOf guess result =
     fold (\<lambda>i fm. if isMarked (result ! i) then bump (toStr (jsCharAt guess i)) fm else fm)
       [0..<length result] []"

definition updateHardConstraints ::
  "string \<Rightarrow> letter_state list \<Rightarrow> hard_constraints \<Rightarrow> hard_constraints" where
  "updateHardConstraints guess result hc =
     \<lparr> exactPositions = greenPositions guess result (exactPositions hc),
       mustContain = fold (\<lambda>e mc. mergeMin (fst e) (snd e) mc)
                       (objectEntries (freqMapOf guess result)) (mustContain hc) \<rparr>"

text \<open>The two loops of \<open>checkHardMode\<close>; each returns at the first violation.\<close>

fun checkExact :: "string \<Rightarrow> (nat \<times> string option) list \<Rightarrow> string option" where
  "checkExact guessWord [] = None"
| "checkExact guessWord ((pos, letter) # es) =
     (if jsCharAt guessWord pos \<noteq> letter
      then Some (ordinal (pos + 1) @ '' letter must be '' @ toStr letter)
      else checkExact guessWord es)"

fun checkContain :: "string \<Rightarrow> (string \<times> nat) list \<Rightarrow> string option" where
  "checkContain guessWord [] = None"
| "checkContain guessWord ((letter, minCount) # cs) =
     (if length (filter (\<lambda>l. [l] = letter) guessWord) < minCount
      then Some (''Guess must contain '' @ letter)
      else checkContain guessWord cs)"

subsection \<open>Game state and guess submission\<close>

text \<open>What the game does to its collaborators (DOM, timers, local storage, the
  multiplayer hooks), in the order it does it.\<close>

datatype effect =
    ShowToast string
  | ShakeRow nat
  | BounceRow nat
  | MpSyncTyping string
  | MpClearTyping
  | RevealRow nat string "letter_state list"
  | UpdateKeyboard string "letter_state list"
  | SaveState
  | RemoveSavedState
  | BuildBoard
  | MpRecordGuess string "letter_state list" nat
  | MpMarkDone bool
  | RecordResult bool nat

record game =
  targetWord :: string
  currentRow :: nat
  currentCol :: nat
  currentGuess :: string
  gameOver :: bool
  hardMode :: bool
  hardConstraints :: hard_constraints
  effects :: "effect list"

definition emit :: "effect list \<Rightarrow> game \<Rightarrow> game" where
  "emit es st = st\<lparr>effects := effects st @ es\<rparr>"

text \<open>\<open>checkHardMode\<close> reads the global \<open>hardConstraints\<close>; the state is passed through so
  that what it leaves behind is part of its result. \<open>None\<close> is \<open>null\<close>.\<close>

definition checkHardMode :: "string \<Rightarrow> game \<Rightarrow> string option \<times> game" where
  "checkHardMode guessWord st =
     (case checkExact guessWord (exactPositions (hardConstraints st)) of
        Some msg \<Rightarrow> (Some msg, st)
      | None \<Rightarrow>
          (case checkContain guessWord (mustContain (hardConstraints st)) of
             Some msg \<Rightarrow> (Some msg, st)
           | None \<Rightarrow> (None, st)))"

definition addLetter :: "char \<Rightarrow> game \<Rightarrow> game" where
  "addLetter letter st =
     (if currentCol st \<ge> WORD_LENGTH then st
      else emit [MpSyncTyping (currentGuess st @ [letter])]
             (st\<lparr>currentGuess := currentGuess st @ [letter], currentCol := currentCol st + 1\<rparr>))"

definition deleteLetter :: "game \<Rightarrow> game" where
  "deleteLetter st =
     (if currentCol st \<le> 0 then st
      else emit [MpSyncTyping (butlast (currentGuess st))]
             (st\<lparr>currentCol := currentCol st - 1, currentGuess := butlast (currentGuess st)\<rparr>))"

text \<open>
  \<open>submitGuess\<close> up to the call of \<open>revealRow\<close>, which shows the result and starts the
  timer of the callback below. The messages of \<open>checkHardMode\<close> are never empty, so
  \<open>if (hardError)\<close> holds exactly when a message came back.
\<close>

definition submitGuess :: "string list \<Rightarrow> game \<Rightarrow> game" where
  "submitGuess ALL_VALID_WORDS st =
     (if currentCol st < WORD_LENGTH
      then emit [ShowToast ''Not enough letters'', ShakeRow (currentRow st)] st
      else
        let guessWord = currentGuess st;
            st1 = emit [MpClearTyping] st
        in if \<not> isValidWord ALL_VALID_WORDS guessWord
           then emit [ShowToast ''Not in word list'', ShakeRow (currentRow st1)] st1
           else
             (case (if hardMode st1 then checkHardMode guessWord st1 else (None, st1)) of
                (Some hardError, st2) \<Rightarrow>
                  emit [ShowToast hardError, ShakeRow (currentRow st2)] st2
              | (None, st2) \<Rightarrow>
                  emit [RevealRow (currentRow st2) guessWord
                          (evaluateGuess guessWord (targetWord st2))] st2))"

definition winMessage :: "nat \<Rightarrow> string" where
  "winMessage row =
     [''Genius!'', ''Magnificent!'', ''Impressive!'', ''Splendid!'', ''Great!'', ''Phew!'']
       ! (min row 5)"

text \<open>The callback \<open>revealRow\<close> runs when the row has been revealed. \<open>mpActive\<close> is what
  \<open>mpShouldSuppressSoloEnd()\<close> returns.\<close>

definition revealCallback ::
  "bool \<Rightarrow> string \<Rightarrow> letter_state list \<Rightarrow> nat \<Rightarrow> game \<Rightarrow> game" where
  "revealCallback mpActive guessWord result submittedRow st =
     (let st1 = emit [UpdateKeyboard guessWord result] st;
          st2 = st1\<lparr>hardConstraints := updateHardConstraints guessWord result (hardConstraints st1)\<rparr>;
          st3 = emit [SaveState, MpRecordGuess guessWord result submittedRow] st2
      in if list_all (\<lambda>r. r = correct) result
         then
           let msg = winMessage (currentRow st3);
               st4 = emit [BounceRow (currentRow st3)] st3;
               st5 = st4\<lparr>gameOver := True, currentRow := currentRow st4 + 1\<rparr>
           in if mpActive then emit [ShowToast msg, MpMarkDone True] st5
              else emit [ShowToast msg, RecordResult True (currentRow st5)] st5
         else
           let st4 = st3\<lparr>currentRow := currentRow st3 + 1, currentCol := 0, currentGuess := []\<rparr>
           in if currentRow st4 \<ge> MAX_GUESSES
              then
                let st5 = st4\<lparr>gameOver := True\<rparr>
                in if mpActive then emit [ShowToast (targetWord st5), MpMarkDone False] st5
                   else emit [ShowToast (targetWord st5), RecordResult False 0] st5
              else st4)"

text \<open>\<open>startGame\<close>; \<open>answer\<close> is the entry of \<open>ANSWERS\<close> that \<open>pickWord\<close> selects.\<close>

definition startGame :: "string \<Rightarrow> game \<Rightarrow> game" where
  "startGame answer st =
     (emit [RemoveSavedState, BuildBoard]
        (st\<lparr>currentRow := 0, currentCol := 0, currentGuess := [], gameOver := False,
            hardConstraints := \<lparr>exactPositions = [], mustContain = []\<rparr>\<rparr>))
       \<lparr>targetWord := toUpperCase answer\<rparr>"

section \<open>Multiplayer session (multiplayer.js)\<close>

subsection \<open>Store paths, values and writes\<close>

text \<open>The leaves of \<open>players/{id}\<close> and the paths under \<open>parties/{code}\<close> that the
  modelled functions read, write or subscribe to.\<close>

datatype field = Done | Won | GuessCount | Guesses | IsWordSetter | ProposedWord | Typing

datatype path =
    Party
  | Players
  | PlayerNode string
  | PlayerField string field
  | Status
  | TargetWord
  | GameMode

datatype jval = JBool bool | JNum nat | JStr string | JEmptyObj | JNullVal

text \<open>A write handed to the store: \<open>update\<close> with its path-to-value object (in insertion
  order), \<open>set\<close>, or \<open>remove\<close>.\<close>

datatype store_write =
    Update "(path \<times> jval) list"
  | SetAt path jval
  | RemoveAt path

text \<open>How an awaited store call ends: it resolves, or it rejects with a code.\<close>

datatype net = Ok | PermissionDenied | NetFailure

record player =
  p_name :: string
  p_done :: bool
  p_won :: bool
  p_guessCount :: nat
  p_isWordSetter :: bool

record party_snapshot =
  wordQueue :: "(nat \<times> string) list"
  wordSetterIndex :: nat
  partyTargetWord :: string

subsection \<open>Listeners\<close>

text \<open>
  Every callback handed to \<open>on('value', ...)\<close> in the file, named after the function that
  creates it. Each call of \<open>on\<close> creates a new closure; the number tells closures of the
  same kind apart. \<open>Relay\<close> captures \<open>setterId\<close> (\<open>queue[idx]\<close>, possibly \<open>undefined\<close>).
\<close>

datatype handler =
    LobbyPlayers
  | LobbyMode
  | LobbyStatus
  | ChoosingStatus
  | Relay "string option"
  | SetterStatus
  | WatchPlayers
  | WatchStatus
  | RoundEndPlayers
  | RoundEndStatus
  | NextRound
  | LiveBoards bool

type_synonym listener = "path \<times> handler \<times> nat"

datatype proc = HandleChoosingPhase | StartMpRound | ShowMpWatchingOverlay | ShowMpResults | EnterLobby

datatype ui =
    Toast string
  | OpenModal string
  | CloseModal string
  | Call proc
  | ClearToasts
  | RemoveLiveBoards
  | HideContainer bool
  | ShowOverlay
  | HideOverlay
  | RemoveMpBanner
  | Render handler

text \<open>
  The module-level variables of multiplayer.js that the modelled functions use
  (\<open>mpPartyRef\<close> is the party code when set, \<open>None\<close> when \<open>null\<close>), together with the
  client's side of its collaborators: \<open>subs\<close>, the callbacks the store currently holds for
  this client; \<open>nextFn\<close>, the number of closures created; \<open>writes\<close>, the writes handed to
  the store; \<open>trace\<close>, calls into the user interface and of the functions named in
  \<open>proc\<close>.
\<close>

record client =
  mpActive :: bool
  mpPlayerId :: string
  mpIsHost :: bool
  mpGameMode :: string
  mpPartyRef :: "string option"
  mpListeners :: "listener list"
  mpLocalGuesses :: "(string \<times> letter_state list) list"
  mpDone :: bool
  mpIsWordSetter :: bool
  subs :: "listener list"
  nextFn :: nat
  writes :: "store_write list"
  trace :: "ui list"

definition say :: "ui list \<Rightarrow> client \<Rightarrow> client" where
  "say us st = st\<lparr>trace := trace st @ us\<rparr>"

definition issue :: "store_write \<Rightarrow> client \<Rightarrow> client" where
  "issue w st = st\<lparr>writes := writes st @ [w]\<rparr>"

text \<open>\<open>const fn = ref.on('value', cb); mpListeners.push(() => ref.off('value', fn))\<close>: the
  two statements stand together at every subscription of the file.\<close>

definition listen :: "path \<Rightarrow> handler \<Rightarrow> client \<Rightarrow> client" where
  "listen p h st =
     (let l = (p, h, nextFn st)
      in st\<lparr>subs := subs st @ [l], mpListeners := mpListeners st @ [l], nextFn := nextFn st + 1\<rparr>)"

text \<open>\<open>ref.off('value', fn)\<close>\<close>

definition off :: "listener \<Rightarrow> client \<Rightarrow> client" where
  "off l st = st\<lparr>subs := remove1 l (subs st)\<rparr>"

text \<open>One entry of \<open>mpListeners\<close>, run: the entry of a live-boards listener also hides its
  container.\<close>

definition runCleanup :: "listener \<Rightarrow> client \<Rightarrow> client" where
  "runCleanup l st =
     (case fst (snd l) of
        LiveBoards spectatorMode \<Rightarrow> say [HideContainer spectatorMode] (off l st)
      | _ \<Rightarrow> off l st)"

subsection \<open>Functions that subscribe\<close>

text \<open>These functions dereference \<open>mpPartyRef\<close>; they are modelled as called while the
  client is in a party.\<close>

definition listenLobby :: "client \<Rightarrow> client" where
  "listenLobby st = listen Status LobbyStatus (listen GameMode LobbyMode (listen Players LobbyPlayers st))"

definition enterLobby :: "client \<Rightarrow> client" where
  "enterLobby st = listenLobby (say [OpenModal ''mp-lobby-modal''] (st\<lparr>mpActive := True\<rparr>))"

definition startLiveBoardsListener :: "bool \<Rightarrow> client \<Rightarrow> client" where
  "startLiveBoardsListener spectatorMode st = listen Players (LiveBoards spectatorMode) st"

definition showMpWatchingOverlay :: "client \<Rightarrow> client" where
  "showMpWatchingOverlay st =
     (let st1 = startLiveBoardsListener True (say [ShowOverlay] st);
          st2 = (if mpIsHost st1 then listen Players WatchPlayers st1 else st1)
      in listen Status WatchStatus st2)"

definition listenForRoundEnd :: "client \<Rightarrow> client" where
  "listenForRoundEnd st =
     (let st1 = (if mpIsHost st then listen Players RoundEndPlayers st else st)
      in listen Status RoundEndStatus st1)"

text \<open>\<open>queue[idx]\<close>: the id at the index, or \<open>undefined\<close>.\<close>

definition setterOf :: "party_snapshot \<Rightarrow> string option" where
  "setterOf party = map_of (wordQueue party) (wordSetterIndex party)"

text \<open>\<open>handleChoosingPhase\<close>, \<open>startMpRound\<close> and \<open>showMpResults\<close> first await a read of the
  party; what follows the read takes the snapshot as its argument. What \<open>startMpRound\<close>
  does to the board (\<open>startGame\<close>, the new \<open>targetWord\<close>) belongs to the game state above.\<close>

definition handleChoosingPhase :: "party_snapshot \<Rightarrow> client \<Rightarrow> client" where
  "handleChoosingPhase party st =
     (let setterId = setterOf party;
          st1 = st\<lparr>mpIsWordSetter := (Some (mpPlayerId st) = setterId)\<rparr>;
          st2 = say [OpenModal ''mp-word-modal''] st1;
          st3 = (if \<not> mpIsWordSetter st2 then listen Status ChoosingStatus st2 else st2)
      in if mpIsHost st3 \<and> \<not> mpIsWordSetter st3
         then listen (PlayerField (toStr setterId) ProposedWord) (Relay setterId) st3
         else st3)"

definition startMpRound :: "party_snapshot \<Rightarrow> client \<Rightarrow> client" where
  "startMpRound party st =
     listenForRoundEnd
       (startLiveBoardsListener False
          (st\<lparr>mpLocalGuesses := [], mpDone := False, mpIsWordSetter := False\<rparr>))"

definition showMpResults :: "party_snapshot \<Rightarrow> client \<Rightarrow> client" where
  "showMpResults party st =
     (let st1 = say [OpenModal ''mp-results-modal''] st
      in if mpPartyRef st1 = None then st1 else listen Status NextRound st1)"

subsection \<open>Callbacks\<close>

text \<open>The status callbacks. The argument is \<open>snap.val()\<close>; \<open>None\<close> is \<open>null\<close>.\<close>

definition lobbyStatusFn :: "listener \<Rightarrow> string option \<Rightarrow> client \<Rightarrow> client" where
  "lobbyStatusFn fn3 s st =
     (if s = Some ''choosing''
      then say [CloseModal ''mp-lobby-modal'', Call HandleChoosingPhase] (off fn3 st)
      else if s = Some ''playing''
      then say [CloseModal ''mp-lobby-modal'', Call StartMpRound] (off fn3 st)
      else st)"

definition choosingStatusFn :: "listener \<Rightarrow> string option \<Rightarrow> client \<Rightarrow> client" where
  "choosingStatusFn fn s st =
     (if s = Some ''playing''
      then say [CloseModal ''mp-word-modal'', Call StartMpRound] (off fn st)
      else st)"

definition setterStatusFn :: "listener \<Rightarrow> string option \<Rightarrow> client \<Rightarrow> client" where
  "setterStatusFn fn s st =
     (if s = Some ''playing''
      then showMpWatchingOverlay
             (say [CloseModal ''mp-word-modal'', Call ShowMpWatchingOverlay] (off fn st))
      else st)"

definition watchStatusFn :: "listener \<Rightarrow> string option \<Rightarrow> client \<Rightarrow> client" where
  "watchStatusFn fn s st =
     (if s = Some ''results''
      then say [HideOverlay, RemoveLiveBoards, Call ShowMpResults, ClearToasts, RemoveLiveBoards]
             (off fn st)
      else st)"

definition roundEndStatusFn :: "listener \<Rightarrow> string option \<Rightarrow> client \<Rightarrow> client" where
  "roundEndStatusFn fn2 s st =
     (if s = Some ''results''
      then say [Call ShowMpResults, ClearToasts, RemoveLiveBoards] (off fn2 st)
      else st)"

definition nextRoundFn :: "listener \<Rightarrow> string option \<Rightarrow> client \<Rightarrow> client" where
  "nextRoundFn fn s st =
     (if s = Some ''playing''
      then say [ClearToasts, CloseModal ''mp-results-modal'', Call StartMpRound] (off fn st)
      else if s = Some ''choosing''
      then say [ClearToasts, CloseModal ''mp-results-modal'', Call HandleChoosingPhase] (off fn st)
      else if s = Some ''lobby''
      then enterLobby (say [ClearToasts, CloseModal ''mp-results-modal'', Call EnterLobby] (off fn st))
      else st)"

text \<open>The host's check for the end of the round, the same body in \<open>listenForRoundEnd\<close> and
  in \<open>showMpWatchingOverlay\<close>. The argument is \<open>snap.val() || {}\<close> as its entries.\<close>

definition allDoneFn :: "listener \<Rightarrow> (string \<times> player) list \<Rightarrow> client \<Rightarrow> client" where
  "allDoneFn fn players st =
     (let all = map snd players
      in if length all > 0 \<and> list_all p_done all
         then issue (Update [(Status, JStr ''results'')]) (off fn st)
         else st)"

text \<open>\<open>/^[A-Za-z]{5}$/\<close> and \<open>/^[A-Z]+$/\<close>\<close>

definition fiveLetters :: "string \<Rightarrow> bool" where
  "fiveLetters w = (length w = 5 \<and> list_all isAlpha w)"


text \<open>The reset object the host builds for the ids of the players snapshot. The relay
  also clears \<open>proposedWord\<close>.\<close>

definition resetsFor :: "bool \<Rightarrow> string option \<Rightarrow> string list \<Rightarrow> (path \<times> jval) list" where
  "resetsFor clearProposed setterId ids =
     concat (map (\<lambda>id.
       [(PlayerField id Done, JBool (Some id = setterId)),
        (PlayerField id Won, JBool False),
        (PlayerField id GuessCount, JNum 0),
        (PlayerField id Guesses, JEmptyObj),
        (PlayerField id IsWordSetter, JBool (Some id = setterId))]
       @ (if clearProposed then [(PlayerField id ProposedWord, JNullVal)] else [])) ids)"

text \<open>
  The host's relay callback. \<open>proposed\<close> is \<open>snap.val()\<close>. After detaching itself the
  callback awaits a read of the players (\<open>pSnap\<close>: the ids read, or \<open>None\<close> when the read
  rejects) and two updates (\<open>resetsOutcome\<close> is how the first ends); a rejection ends the
  callback there.
\<close>

definition relayFn ::
  "listener \<Rightarrow> string option \<Rightarrow> string option \<Rightarrow> string list option \<Rightarrow> net \<Rightarrow> client \<Rightarrow> client" where
  "relayFn fn setterId proposed pSnap resetsOutcome st =
     (case proposed of
        None \<Rightarrow> st
      | Some w \<Rightarrow>
          if w = [] \<or> \<not> fiveLetters w then st
          else
            let st1 = off fn st
            in (case pSnap of
                  None \<Rightarrow> st1
                | Some ids \<Rightarrow>
                    let st2 = issue (Update (resetsFor True setterId ids)) st1
                    in if resetsOutcome \<noteq> Ok then st2
                       else issue (Update [(TargetWord, JStr (toUpperCase w)),
                                           (Status, JStr ''playing'')]) st2))"

subsection \<open>Submitting the secret word\<close>






subsection \<open>Leaving\<close>




subsection \<open>The store invoking a callback\<close>

text \<open>What a notification carries: the value at the path, and for the relay what its
  awaited calls will give.\<close>

datatype notification =
    StatusVal "string option"
  | PlayersVal "(string \<times> player) list"
  | ModeVal "string option"
  | ProposedVal "string option" "string list option" net

text \<open>The store calls only callbacks it holds: a callback that was detached is not
  called again.\<close>

definition fire :: "listener \<Rightarrow> notification \<Rightarrow> client \<Rightarrow> client" where
  "fire l ev st =
     (if l \<notin> set (subs st) then st
      else
        (case (fst (snd l), ev) of
           (LobbyStatus, StatusVal s) \<Rightarrow> lobbyStatusFn l s st
         | (ChoosingStatus, StatusVal s) \<Rightarrow> choosingStatusFn l s st
         | (SetterStatus, StatusVal s) \<Rightarrow> setterStatusFn l s st
         | (WatchStatus, StatusVal s) \<Rightarrow> watchStatusFn l s st
         | (RoundEndStatus, StatusVal s) \<Rightarrow> roundEndStatusFn l s st
         | (NextRound, StatusVal s) \<Rightarrow> nextRoundFn l s st
         | (WatchPlayers, PlayersVal ps) \<Rightarrow> allDoneFn l ps st
         | (RoundEndPlayers, PlayersVal ps) \<Rightarrow> allDoneFn l ps st
         | (Relay setterId, ProposedVal w pSnap r) \<Rightarrow> relayFn l setterId w pSnap r st
         | (LobbyMode, ModeVal m) \<Rightarrow>
             (case m of None \<Rightarrow> st
              | Some mode \<Rightarrow> if mode = [] then st else say [Render LobbyMode] (st\<lparr>mpGameMode := mode\<rparr>))
         | (LobbyPlayers, PlayersVal ps) \<Rightarrow> say [Render LobbyPlayers] st
         | (LiveBoards b, PlayersVal ps) \<Rightarrow> say [Render (LiveBoards b)] st
         | _ \<Rightarrow> st))"


text \<open>The calls of \<open>proc\<close> functions recorded in a trace.\<close>

definition calls :: "client \<Rightarrow> proc list" where
  "calls st = concat (map (\<lambda>u. case u of Call p \<Rightarrow> [p] | _ \<Rightarrow> []) (trace st))"

text \<open>The invariant of the subscription bookkeeping: the store holds each closure once,
  every closure it holds has its cleanup entry, and closure numbers are fresh.\<close>

definition bookkept :: "client \<Rightarrow> bool" where
  "bookkept st =
     (distinct (subs st) \<and> set (subs st) \<subseteq> set (mpListeners st) \<and>
      list_all (\<lambda>l. snd (snd l) < nextFn st) (mpListeners st))"

definition initialClient :: client where
  "initialClient =
     \<lparr>mpActive = False, mpPlayerId = [], mpIsHost = False, mpGameMode = ''classic'',
      mpPartyRef = None, mpListeners = [], mpLocalGuesses = [], mpDone = False,
      mpIsWordSetter = False, subs = [], nextFn = 0, writes = [], trace = []\<rparr>"

section \<open>Auxiliary notions for the proofs\<close>

text \<open>What the first loop of \<open>evaluateGuess\<close> leaves after \<open>k\<close> rounds, and the invariant of
  the second loop after \<open>k\<close> rounds, for words of length \<open>n\<close>.\<close>

definition afterCorrect :: "nat \<Rightarrow> nat \<Rightarrow> string \<Rightarrow> string \<Rightarrow> eval_state" where
  "afterCorrect n k g t =
     (map (\<lambda>i. if i < k \<and> g ! i = t ! i then correct else absent) [0..<n],
      map (\<lambda>i. if i < k \<and> g ! i = t ! i then JNull else JChar (t ! i)) [0..<n],
      map (\<lambda>i. if i < k \<and> g ! i = t ! i then JNull else JChar (g ! i)) [0..<n])"

definition targetLeft :: "nat \<Rightarrow> string \<Rightarrow> string \<Rightarrow> jsval list" where
  "targetLeft n g t = map (\<lambda>i. if g ! i = t ! i then JNull else JChar (t ! i)) [0..<n]"

definition guessLeft :: "nat \<Rightarrow> string \<Rightarrow> string \<Rightarrow> jsval list" where
  "guessLeft n g t = map (\<lambda>i. if g ! i = t ! i then JNull else JChar (g ! i)) [0..<n]"

definition presentInv :: "nat \<Rightarrow> nat \<Rightarrow> string \<Rightarrow> string \<Rightarrow> eval_state \<Rightarrow> bool" where
  "presentInv n k g t s =
     (case s of (res, tarr, garr) \<Rightarrow>
        garr = guessLeft n g t \<and> length res = n \<and> length tarr = n \<and> JHole \<notin> set tarr \<and>
        (\<forall>j<n. res ! j = correct \<longleftrightarrow> g ! j = t ! j) \<and>
        (\<forall>j<n. res ! j = present \<longrightarrow> j < k) \<and>
        (\<forall>X. count_list tarr (JChar X)
              + length (filter (\<lambda>i. g ! i = X \<and> res ! i = present) [0..<k])
            = count_list (targetLeft n g t) (JChar X)) \<and>
        (\<forall>i<k. res ! i = absent \<longrightarrow> JChar (g ! i) \<notin> set tarr) \<and>
        (\<forall>i j. i < j \<and> j < k \<and> g ! i = g ! j \<and> res ! j = present \<longrightarrow> res ! i \<noteq> absent))"




text \<open>The \<open>minCount\<close> recorded for a letter, \<open>0\<close> when it has no record; the number of
  marked positions among \<open>js\<close> whose letter, as a property key, is \<open>letter\<close>.\<close>

definition existing :: "(string \<times> nat) list \<Rightarrow> string \<Rightarrow> nat" where
  "existing mc letter = (case map_of mc letter of None \<Rightarrow> 0 | Some m \<Rightarrow> m)"

definition marksOf :: "string \<Rightarrow> letter_state list \<Rightarrow> string \<Rightarrow> nat list \<Rightarrow> nat" where
  "marksOf guess result letter js =
     length (filter (\<lambda>i. toStr (jsCharAt guess i) = letter \<and> isMarked (result ! i)) js)"

text \<open>Some recorded position does not hold its letter; some recorded letter occurs
  fewer times than its minimum.\<close>

definition exactBroken :: "string \<Rightarrow> hard_constraints \<Rightarrow> bool" where
  "exactBroken g hc = (\<exists>e\<in>set (exactPositions hc). jsCharAt g (fst e) \<noteq> snd e)"

definition containBroken :: "string \<Rightarrow> hard_constraints \<Rightarrow> bool" where
  "containBroken g hc =
     (\<exists>c\<in>set (mustContain hc). length (filter (\<lambda>l. [l] = fst c) g) < snd c)"

text \<open>The game after the first guess TRACE against CRANE, hard mode on, with CHASE typed;
  the constraints after a first guess BROWS against CRANE.\<close>

definition exampleRound :: game where
  "exampleRound =
     \<lparr>targetWord = ''CRANE'', currentRow = 1, currentCol = 5, currentGuess = ''CHASE'',
      gameOver = False, hardMode = True,
      hardConstraints =
        \<lparr>exactPositions = [(1, Some ''R''), (2, Some ''A''), (4, Some ''E'')],
         mustContain = [(''R'', 1), (''A'', 1), (''C'', 1), (''E'', 1)]\<rparr>,
      effects = []\<rparr>"

text \<open>Every recorded exact position holds the letter the target has there.\<close>

definition agreesWith :: "string \<Rightarrow> hard_constraints \<Rightarrow> bool" where
  "agreesWith target hc = list_all (\<lambda>e. snd e = jsCharAt target (fst e)) (exactPositions hc)"

definition afterBrows :: hard_constraints where
  "afterBrows = \<lparr>exactPositions = [(1, Some ''R'')], mustContain = [(''R'', 1)]\<rparr>"












text \<open>The value the reset object holds for a field of a player.\<close>

definition resetValue :: "bool \<Rightarrow> string option \<Rightarrow> string \<Rightarrow> field \<Rightarrow> jval option" where
  "resetValue clearProposed setterId pid f =
     (case f of
        Done \<Rightarrow> Some (JBool (Some pid = setterId))
      | Won \<Rightarrow> Some (JBool False)
      | GuessCount \<Rightarrow> Some (JNum 0)
      | Guesses \<Rightarrow> Some JEmptyObj
      | IsWordSetter \<Rightarrow> Some (JBool (Some pid = setterId))
      | ProposedWord \<Rightarrow> (if clearProposed then Some JNullVal else None)
      | Typing \<Rightarrow> None)"

text \<open>The two updates of the relay, in order.\<close>

definition relayWrites :: "string option \<Rightarrow> string \<Rightarrow> string list \<Rightarrow> store_write list" where
  "relayWrites setterId w ids =
     [Update (resetsFor True setterId ids),
      Update [(TargetWord, JStr (toUpperCase w)), (Status, JStr ''playing'')]]"




definition queueParty :: party_snapshot where
  "queueParty = \<lparr>wordQueue = [(0, ''u1''), (1, ''h1'')], wordSetterIndex = 0, partyTargetWord = []\<rparr>"

definition hostChoosing :: client where
  "hostChoosing =
     handleChoosingPhase queueParty
       (initialClient\<lparr>mpActive := True, mpPlayerId := ''h1'', mpIsHost := True,
                      mpPartyRef := Some ''ABC234''\<rparr>)"




section \<open>Properties of evaluateGuess\<close>

lemma evaluateGuess_example_TRACE:
  "evaluateGuess ''TRACE'' ''CRANE'' = [absent, correct, correct, present, correct]"
  by code_simp

lemma indexOf_None_iff: "v \<noteq> JHole \<Longrightarrow> indexOf xs v = None \<longleftrightarrow> v \<notin> set xs"
  by (induction xs) auto

lemma indexOf_Some: "indexOf xs v = Some i \<Longrightarrow> i < length xs \<and> xs ! i = v"
  by (induction xs arbitrary: i) (auto split: if_splits)

lemma count_list_update_JNull:
  "i < length xs \<Longrightarrow> xs ! i = JChar c \<Longrightarrow>
   count_list (xs[i := JNull]) (JChar X) + (if c = X then 1 else 0) = count_list xs (JChar X)"
proof (induction xs arbitrary: i)
  case Nil
  then show ?case by simp
next
  case (Cons a xs)
  show ?case
  proof (cases i)
    case 0
    with Cons.prems show ?thesis by auto
  next
    case (Suc j)
    with Cons.prems have "j < length xs" "xs ! j = JChar c" by auto
    from Cons.IH[OF this] Suc show ?thesis by auto
  qed
qed

lemma count_list_map_filter: "count_list (map f xs) y = length (filter (\<lambda>x. f x = y) xs)"
  by (induction xs) auto

lemma length_filter_split:
  "length (filter P xs) = length (filter (\<lambda>x. P x \<and> Q x) xs) + length (filter (\<lambda>x. P x \<and> \<not> Q x) xs)"
  by (induction xs) auto

lemma correct_pass:
  assumes "length g = n" "length t = n" "k \<le> n"
  shows "fold correctStep [0..<k] (replicate n absent, map JChar t, map JChar g) = afterCorrect n k g t"
  using assms(3)
proof (induction k)
  case 0
  show ?case using assms(1,2)
    by (auto simp: afterCorrect_def intro: nth_equalityI)
next
  case (Suc k)
  then have k: "k < n" by simp
  have "fold correctStep [0..<Suc k] (replicate n absent, map JChar t, map JChar g)
        = correctStep k (afterCorrect n k g t)"
    using Suc by simp
  also have "\<dots> = afterCorrect n (Suc k) g t"
    using k assms(1,2)
    by (auto simp: afterCorrect_def correctStep_def jsGet_def jsSet_def nth_list_update less_Suc_eq
        intro!: nth_equalityI)
  finally show ?case .
qed

lemma afterCorrect_full:
  "afterCorrect n n g t =
     (map (\<lambda>i. if g ! i = t ! i then correct else absent) [0..<n], targetLeft n g t, guessLeft n g t)"
  by (simp add: afterCorrect_def targetLeft_def guessLeft_def)

lemma presentInv_init: "presentInv n 0 g t (afterCorrect n n g t)"
  by (auto simp: afterCorrect_full presentInv_def targetLeft_def)

lemma presentInv_step:
  assumes k: "k < n" and inv: "presentInv n k g t s"
  shows "presentInv n (Suc k) g t (presentStep k s)"
proof -
  obtain res tarr garr where s: "s = (res, tarr, garr)" by (cases s) auto
  from inv s have garr: "garr = guessLeft n g t" and lres: "length res = n"
    and ltarr: "length tarr = n" and nohole: "JHole \<notin> set tarr"
    and corr: "\<forall>j<n. res ! j = correct \<longleftrightarrow> g ! j = t ! j"
    and pres: "\<forall>j<n. res ! j = present \<longrightarrow> j < k"
    and cnt: "\<forall>X. count_list tarr (JChar X)
              + length (filter (\<lambda>i. g ! i = X \<and> res ! i = present) [0..<k])
            = count_list (targetLeft n g t) (JChar X)"
    and abs: "\<forall>i<k. res ! i = absent \<longrightarrow> JChar (g ! i) \<notin> set tarr"
    and left: "\<forall>i j. i < j \<and> j < k \<and> g ! i = g ! j \<and> res ! j = present \<longrightarrow> res ! i \<noteq> absent"
    by (auto simp: presentInv_def)
  have gk: "jsGet garr k = (if g ! k = t ! k then JNull else JChar (g ! k))"
    using k by (simp add: garr guessLeft_def jsGet_def)
  have notpres: "res ! k \<noteq> present" using pres k by auto
  show ?thesis
  proof (cases "g ! k = t ! k")
    case True
    then have step: "presentStep k (res, tarr, garr) = (res, tarr, garr)" by (simp add: presentStep_def gk)
    have rk: "res ! k = correct" using corr k True by simp
    show ?thesis
      unfolding s step presentInv_def
      using garr lres ltarr nohole corr pres cnt abs left rk
      by (auto simp: less_Suc_eq)
  next
    case False
    then have gk': "jsGet garr k = JChar (g ! k)" by (simp add: gk)
    have rk: "res ! k = absent"
      using corr k False notpres by (cases "res ! k") auto
    show ?thesis
    proof (cases "indexOf tarr (JChar (g ! k))")
      case None
      then have step: "presentStep k (res, tarr, garr) = (res, tarr, garr)" by (simp add: presentStep_def gk')
      from None have notin: "JChar (g ! k) \<notin> set tarr" by (simp add: indexOf_None_iff)
      show ?thesis
        unfolding s step presentInv_def
        using garr lres ltarr nohole corr pres cnt abs left rk notin
        by (auto simp: less_Suc_eq)
    next
      case (Some idx)
      then have idx: "idx < length tarr" "tarr ! idx = JChar (g ! k)"
        using indexOf_Some by blast+
      have step: "presentStep k (res, tarr, garr) = (res[k := present], tarr[idx := JNull], garr)"
        using Some idx by (simp add: presentStep_def gk' jsSet_def)
      have sub: "set (tarr[idx := JNull]) \<subseteq> insert JNull (set tarr)"
        by (rule set_update_subset_insert)
      have c1: "\<forall>j<n. (res[k := present]) ! j = correct \<longleftrightarrow> g ! j = t ! j"
        using corr False lres k by (auto simp: nth_list_update)
      have c2: "\<forall>j<n. (res[k := present]) ! j = present \<longrightarrow> j < Suc k"
        using pres lres k by (auto simp: nth_list_update less_Suc_eq)
      have filt: "filter (\<lambda>i. g ! i = X \<and> (res[k := present]) ! i = present) [0..<k]
                = filter (\<lambda>i. g ! i = X \<and> res ! i = present) [0..<k]" for X
        by (rule filter_cong) auto
      have c3: "count_list (tarr[idx := JNull]) (JChar X)
              + length (filter (\<lambda>i. g ! i = X \<and> (res[k := present]) ! i = present) [0..<Suc k])
            = count_list (targetLeft n g t) (JChar X)" for X
        using count_list_update_JNull[OF idx, of X] cnt[rule_format, of X] k lres
        by (auto simp: filt)
      have c4: "\<forall>i<Suc k. (res[k := present]) ! i = absent \<longrightarrow> JChar (g ! i) \<notin> set (tarr[idx := JNull])"
        using abs sub lres k by (auto simp: nth_list_update less_Suc_eq split: if_splits)
      have inT: "JChar (g ! k) \<in> set tarr" using idx by (metis nth_mem)
      have c5: "\<forall>i j. i < j \<and> j < Suc k \<and> g ! i = g ! j \<and> (res[k := present]) ! j = present
                  \<longrightarrow> (res[k := present]) ! i \<noteq> absent"
      proof (intro allI impI)
        fix i j
        assume a: "i < j \<and> j < Suc k \<and> g ! i = g ! j \<and> (res[k := present]) ! j = present"
        show "(res[k := present]) ! i \<noteq> absent"
        proof (cases "j = k")
          case True
          with a have "i < k" "g ! i = g ! k" by auto
          with abs inT have "res ! i \<noteq> absent" by auto
          with \<open>i < k\<close> show ?thesis by simp
        next
          case False
          with a have "j < k" "i < k" "i < j" "g ! i = g ! j" "res ! j = present" by auto
          with left have "res ! i \<noteq> absent" by blast
          with \<open>i < k\<close> show ?thesis by simp
        qed
      qed
      have nh: "JHole \<notin> set (tarr[idx := JNull])" using sub nohole by auto
      have l1: "length (res[k := present]) = n" and l2: "length (tarr[idx := JNull]) = n"
        using lres ltarr by simp_all
      have c3all: "\<forall>X. count_list (tarr[idx := JNull]) (JChar X)
              + length (filter (\<lambda>i. g ! i = X \<and> (res[k := present]) ! i = present) [0..<Suc k])
            = count_list (targetLeft n g t) (JChar X)"
        using c3 by blast
      show ?thesis
        unfolding s step presentInv_def prod.case
        by (intro conjI garr l1 l2 nh c1 c2 c3all c4 c5)
    qed
  qed
qed

lemma presentInv_fold:
  "k \<le> n \<Longrightarrow> presentInv n k g t (fold presentStep [0..<k] (afterCorrect n n g t))"
proof (induction k)
  case 0
  show ?case by (simp add: presentInv_init)
next
  case (Suc k)
  then show ?case using presentInv_step[of k n g t] by simp
qed

lemma evaluateGuess_presentInv:
  assumes "length g = WORD_LENGTH" "length t = WORD_LENGTH"
  shows "\<exists>tarr garr. presentInv WORD_LENGTH WORD_LENGTH g t (evaluateGuess g t, tarr, garr)"
proof -
  have "fold correctStep [0..<WORD_LENGTH] (replicate WORD_LENGTH absent, map JChar t, map JChar g)
        = afterCorrect WORD_LENGTH WORD_LENGTH g t"
    using assms by (intro correct_pass) simp_all
  then have "presentInv WORD_LENGTH WORD_LENGTH g t
     (fold presentStep [0..<WORD_LENGTH]
        (fold correctStep [0..<WORD_LENGTH] (replicate WORD_LENGTH absent, map JChar t, map JChar g)))"
    using presentInv_fold[of WORD_LENGTH WORD_LENGTH g t] by simp
  then show ?thesis
    unfolding evaluateGuess_def by (metis prod.collapse)
qed

lemma count_list_nth_filter:
  "length xs = n \<Longrightarrow> count_list xs X = length (filter (\<lambda>i. xs ! i = X) [0..<n])"
proof -
  assume n: "length xs = n"
  have "count_list (map (\<lambda>i. xs ! i) [0..<n]) X = length (filter (\<lambda>i. xs ! i = X) [0..<n])"
    by (rule count_list_map_filter)
  moreover have "map (\<lambda>i. xs ! i) [0..<n] = xs" using n by (auto intro: nth_equalityI)
  ultimately show ?thesis by simp
qed

lemma length_filter_pos_ex: "0 < length (filter P xs) \<Longrightarrow> \<exists>x\<in>set xs. P x"
  by (induction xs) (auto split: if_splits)

lemma isMarked_iff: "isMarked r = (r \<noteq> absent)"
  by (cases r) (auto simp: isMarked_def)

lemma evaluateGuess_counts:
  assumes lg: "length g = WORD_LENGTH" and lt: "length t = WORD_LENGTH"
  defines "res \<equiv> evaluateGuess g t"
  shows "length res = WORD_LENGTH"
    and "\<forall>j<WORD_LENGTH. res ! j = correct \<longleftrightarrow> g ! j = t ! j"
    and "marksFor isMarked X g res \<le> count_list t X"
    and "marksFor isMarked X g res + marksFor (\<lambda>r. r = absent) X g res = count_list g X"
    and "0 < marksFor (\<lambda>r. r = absent) X g res \<Longrightarrow> marksFor isMarked X g res = count_list t X"
    and "\<forall>i j. i < j \<and> j < WORD_LENGTH \<and> g ! i = g ! j \<and> res ! j = present \<longrightarrow> res ! i \<noteq> absent"
proof -
  let ?n = WORD_LENGTH
  obtain tarr garr where inv: "presentInv ?n ?n g t (res, tarr, garr)"
    using evaluateGuess_presentInv[OF lg lt] unfolding res_def by blast
  from inv show lres: "length res = ?n" by (simp add: presentInv_def)
  from inv show corr: "\<forall>j<?n. res ! j = correct \<longleftrightarrow> g ! j = t ! j"
    by (simp add: presentInv_def)
  from inv have cnt: "count_list tarr (JChar X)
              + length (filter (\<lambda>i. g ! i = X \<and> res ! i = present) [0..<?n])
            = count_list (targetLeft ?n g t) (JChar X)"
    by (simp add: presentInv_def)
  from inv have abs: "\<forall>i<?n. res ! i = absent \<longrightarrow> JChar (g ! i) \<notin> set tarr"
    by (simp add: presentInv_def)
  from inv show "\<forall>i j. i < j \<and> j < ?n \<and> g ! i = g ! j \<and> res ! j = present \<longrightarrow> res ! i \<noteq> absent"
    by (simp add: presentInv_def)
  have m1: "marksFor isMarked X g res
      = length (filter (\<lambda>i. g ! i = X \<and> res ! i = correct) [0..<?n])
        + length (filter (\<lambda>i. g ! i = X \<and> res ! i = present) [0..<?n])"
  proof -
    have a: "filter (\<lambda>i. (g ! i = X \<and> isMarked (res ! i)) \<and> res ! i = correct) [0..<?n]
           = filter (\<lambda>i. g ! i = X \<and> res ! i = correct) [0..<?n]"
      by (rule filter_cong) (auto simp: isMarked_def)
    have b: "filter (\<lambda>i. (g ! i = X \<and> isMarked (res ! i)) \<and> \<not> res ! i = correct) [0..<?n]
           = filter (\<lambda>i. g ! i = X \<and> res ! i = present) [0..<?n]"
      by (rule filter_cong) (auto simp: isMarked_def)
    show ?thesis
      unfolding marksFor_def lres
      using length_filter_split[of "\<lambda>i. g ! i = X \<and> isMarked (res ! i)" "[0..<?n]" "\<lambda>i. res ! i = correct"]
      by (simp only: a b)
  qed
  have t1: "count_list t X
      = length (filter (\<lambda>i. t ! i = X \<and> g ! i = t ! i) [0..<?n])
        + length (filter (\<lambda>i. t ! i = X \<and> g ! i \<noteq> t ! i) [0..<?n])"
    using count_list_nth_filter[OF lt, of X]
      length_filter_split[of "\<lambda>i. t ! i = X" "[0..<?n]" "\<lambda>i. g ! i = t ! i"]
    by simp
  have t2: "length (filter (\<lambda>i. t ! i = X \<and> g ! i \<noteq> t ! i) [0..<?n])
      = count_list (targetLeft ?n g t) (JChar X)"
  proof -
    have "filter (\<lambda>i. (if g ! i = t ! i then JNull else JChar (t ! i)) = JChar X) [0..<?n]
        = filter (\<lambda>i. t ! i = X \<and> g ! i \<noteq> t ! i) [0..<?n]"
      by (rule filter_cong) auto
    then show ?thesis by (simp add: targetLeft_def count_list_map_filter)
  qed
  have t3: "length (filter (\<lambda>i. g ! i = X \<and> res ! i = correct) [0..<?n])
      = length (filter (\<lambda>i. t ! i = X \<and> g ! i = t ! i) [0..<?n])"
  proof -
    have "filter (\<lambda>i. g ! i = X \<and> res ! i = correct) [0..<?n]
        = filter (\<lambda>i. t ! i = X \<and> g ! i = t ! i) [0..<?n]"
      using corr by (intro filter_cong) auto
    then show ?thesis by simp
  qed
  have total: "marksFor isMarked X g res + count_list tarr (JChar X) = count_list t X"
    using m1 t1 t2 t3 cnt by simp
  then show "marksFor isMarked X g res \<le> count_list t X" by simp
  show split: "marksFor isMarked X g res + marksFor (\<lambda>r. r = absent) X g res = count_list g X"
  proof -
    have a: "filter (\<lambda>i. g ! i = X \<and> isMarked (res ! i)) [0..<?n]
           = filter (\<lambda>i. g ! i = X \<and> res ! i \<noteq> absent) [0..<?n]"
      by (simp add: isMarked_iff)
    show ?thesis
      unfolding marksFor_def lres a
      using count_list_nth_filter[OF lg, of X]
        length_filter_split[of "\<lambda>i. g ! i = X" "[0..<?n]" "\<lambda>i. res ! i \<noteq> absent"]
      by simp
  qed
  show "marksFor isMarked X g res = count_list t X" if "0 < marksFor (\<lambda>r. r = absent) X g res"
  proof -
    from that have "\<exists>i\<in>set [0..<?n]. g ! i = X \<and> res ! i = absent"
      unfolding marksFor_def lres by (rule length_filter_pos_ex)
    then obtain i where "i < ?n" "g ! i = X" "res ! i = absent" by auto
    with abs have "JChar X \<notin> set tarr" by auto
    then have "count_list tarr (JChar X) = 0" by (simp add: count_list_0_iff)
    with total show ?thesis by simp
  qed
qed


text \<open>
  C1. For guess and target of length 5 and every letter \<open>X\<close>: the positions of the guess
  that hold \<open>X\<close> and are marked correct or present are at most as many as the occurrences
  of \<open>X\<close> in the target; they are exactly the smaller of the two counts, so the copies
  of \<open>X\<close> in the guess beyond the target's count are the ones marked absent; and of two
  positions holding the same letter, a later one is never marked present while an
  earlier one is marked absent.
\<close>

theorem evaluateGuess_duplicate_letters:
  assumes "length guess = 5" and "length target = 5"
  shows "marksFor isMarked X guess (evaluateGuess guess target) \<le> count_list target X
       \<and> marksFor isMarked X guess (evaluateGuess guess target)
           = min (count_list guess X) (count_list target X)
       \<and> marksFor (\<lambda>r. r = absent) X guess (evaluateGuess guess target)
           = count_list guess X - count_list target X
       \<and> (\<forall>i j. i < j \<and> j < 5 \<and> guess ! i = guess ! j
               \<and> evaluateGuess guess target ! i = absent
             \<longrightarrow> evaluateGuess guess target ! j \<noteq> present)"
proof -
  let ?res = "evaluateGuess guess target"
  have lg: "length guess = WORD_LENGTH" and lt: "length target = WORD_LENGTH"
    using assms by (simp_all add: WORD_LENGTH_def)
  note c = evaluateGuess_counts[OF lg lt]
  have le: "marksFor isMarked X guess ?res \<le> count_list target X" by (rule c(3))
  have sum: "marksFor isMarked X guess ?res + marksFor (\<lambda>r. r = absent) X guess ?res
             = count_list guess X" by (rule c(4))
  have full: "0 < marksFor (\<lambda>r. r = absent) X guess ?res
              \<Longrightarrow> marksFor isMarked X guess ?res = count_list target X" by (rule c(5))
  have mn: "marksFor isMarked X guess ?res = min (count_list guess X) (count_list target X)"
    using le sum full by (cases "marksFor (\<lambda>r. r = absent) X guess ?res = 0") auto
  have ab: "marksFor (\<lambda>r. r = absent) X guess ?res = count_list guess X - count_list target X"
    using le sum full by (cases "marksFor (\<lambda>r. r = absent) X guess ?res = 0") auto
  have left: "\<forall>i j. i < j \<and> j < 5 \<and> guess ! i = guess ! j \<and> ?res ! i = absent
                \<longrightarrow> ?res ! j \<noteq> present"
    using c(6) by (auto simp: WORD_LENGTH_def)
  show ?thesis using le mn ab left by blast
qed

theorem evaluateGuess_duplicate_letters_witness:
  "length ''GEESE'' = 5 \<and> length ''ELUDE'' = 5
   \<and> evaluateGuess ''GEESE'' ''ELUDE'' = [absent, present, absent, absent, correct]
   \<and> marksFor isMarked CHR ''E'' ''GEESE'' (evaluateGuess ''GEESE'' ''ELUDE'')
       \<le> count_list ''ELUDE'' CHR ''E''
   \<and> marksFor isMarked CHR ''E'' ''GEESE'' (evaluateGuess ''GEESE'' ''ELUDE'') = 2
   \<and> marksFor (\<lambda>r. r = absent) CHR ''E'' ''GEESE'' (evaluateGuess ''GEESE'' ''ELUDE'') = 1
   \<and> evaluateGuess ''GEESE'' ''ELUDE'' ! 2 = absent
   \<and> evaluateGuess ''GEESE'' ''ELUDE'' ! 4 \<noteq> present"
proof -
  have l: "length ''GEESE'' = 5" "length ''ELUDE'' = 5" by simp_all
  have r: "evaluateGuess ''GEESE'' ''ELUDE'' = [absent, present, absent, absent, correct]"
    by code_simp
  have g: "''GEESE'' ! 2 = ''GEESE'' ! 4" by simp
  have a: "evaluateGuess ''GEESE'' ''ELUDE'' ! 2 = absent" unfolding r by simp
  from evaluateGuess_duplicate_letters[OF l, of "CHR ''E''"]
  have t1: "marksFor isMarked CHR ''E'' ''GEESE'' (evaluateGuess ''GEESE'' ''ELUDE'')
              \<le> count_list ''ELUDE'' CHR ''E''"
    and t2: "marksFor isMarked CHR ''E'' ''GEESE'' (evaluateGuess ''GEESE'' ''ELUDE'')
              = min (count_list ''GEESE'' CHR ''E'') (count_list ''ELUDE'' CHR ''E'')"
    and t3: "marksFor (\<lambda>r. r = absent) CHR ''E'' ''GEESE'' (evaluateGuess ''GEESE'' ''ELUDE'')
              = count_list ''GEESE'' CHR ''E'' - count_list ''ELUDE'' CHR ''E''"
    and t4: "\<forall>i j. i < j \<and> j < 5 \<and> ''GEESE'' ! i = ''GEESE'' ! j
               \<and> evaluateGuess ''GEESE'' ''ELUDE'' ! i = absent
             \<longrightarrow> evaluateGuess ''GEESE'' ''ELUDE'' ! j \<noteq> present"
    by blast+
  have t4': "evaluateGuess ''GEESE'' ''ELUDE'' ! 4 \<noteq> present"
    using t4[rule_format, of 2 4] g a by simp
  have t2': "marksFor isMarked CHR ''E'' ''GEESE'' (evaluateGuess ''GEESE'' ''ELUDE'') = 2"
    using t2 by simp
  have t3': "marksFor (\<lambda>r. r = absent) CHR ''E'' ''GEESE'' (evaluateGuess ''GEESE'' ''ELUDE'') = 1"
    using t3 by simp
  show ?thesis using l r t1 t2' t3' a t4' by blast
qed

subsection \<open>Case and renaming\<close>



















section \<open>Hard mode\<close>

subsection \<open>What updateHardConstraints records\<close>

lemma map_of_objPut: "map_of (objPut k v es) = (map_of es)(k \<mapsto> v)"
  by (induction es) (auto simp: fun_eq_iff)

lemma greenPositions_fold:
  "map_of (fold (\<lambda>i ep. if result ! i = correct then objPut i (jsCharAt guess i) ep else ep) js ep) i
     = (if i \<in> set js \<and> result ! i = correct then Some (jsCharAt guess i) else map_of ep i)"
  by (induction js arbitrary: ep) (auto simp: map_of_objPut)

lemma map_of_greenPositions:
  "map_of (greenPositions guess result ep) i
     = (if i < length result \<and> result ! i = correct then Some (jsCharAt guess i) else map_of ep i)"
  by (simp add: greenPositions_def greenPositions_fold)

lemma map_of_bump: "map_of (bump k fm) = (map_of fm)(k \<mapsto> existing fm k + 1)"
  by (induction fm) (auto simp: fun_eq_iff existing_def)

lemma keys_bump: "fst ` set (bump k fm) = insert k (fst ` set fm)"
  by (simp add: dom_map_of_conv_image_fst[symmetric] map_of_bump)

lemma distinct_bump: "distinct (map fst fm) \<Longrightarrow> distinct (map fst (bump k fm))"
proof (induction fm)
  case Nil show ?case by simp
next
  case (Cons e fm)
  obtain k' n where e: "e = (k', n)" by (cases e)
  from Cons have d: "distinct (map fst (bump k fm))" and ni: "k' \<notin> fst ` set fm"
    by (auto simp: e)
  show ?case
  proof (cases "k = k'")
    case True then show ?thesis using Cons.prems by (simp add: e)
  next
    case False
    then have "k' \<notin> fst ` set (bump k fm)" using ni by (simp add: keys_bump)
    then show ?thesis using d False by (simp add: e)
  qed
qed

lemma freqMap_fold:
  "distinct (map fst fm) \<Longrightarrow>
   distinct (map fst (fold (\<lambda>i fm. if isMarked (result ! i) then bump (toStr (jsCharAt guess i)) fm else fm) js fm))
   \<and> map_of (fold (\<lambda>i fm. if isMarked (result ! i) then bump (toStr (jsCharAt guess i)) fm else fm) js fm) letter
     = (if marksOf guess result letter js = 0 then map_of fm letter
        else Some (existing fm letter + marksOf guess result letter js))"
proof (induction js arbitrary: fm)
  case Nil
  then show ?case by (simp add: marksOf_def)
next
  case (Cons j js)
  let ?fm' = "if isMarked (result ! j) then bump (toStr (jsCharAt guess j)) fm else fm"
  have d: "distinct (map fst ?fm')" using Cons.prems by (simp add: distinct_bump)
  from Cons.IH[OF d] show ?case
    by (auto simp: marksOf_def map_of_bump existing_def)
qed

lemma map_of_freqMapOf:
  "map_of (freqMapOf guess result) letter
     = (if marksOf guess result letter [0..<length result] = 0 then None
        else Some (marksOf guess result letter [0..<length result]))"
  using freqMap_fold[of "[]" result guess "[0..<length result]" letter]
  by (simp add: freqMapOf_def existing_def)

lemma distinct_freqMapOf: "distinct (map fst (freqMapOf guess result))"
  using freqMap_fold[of "[]" result guess "[0..<length result]"]
  by (simp add: freqMapOf_def)

lemma objectEntries_distinct:
  "distinct (map fst es) \<Longrightarrow> distinct (map fst (objectEntries es))"
  by (auto simp: objectEntries_def distinct_map inj_on_def)

lemma objectEntries_set: "set (objectEntries es) = set es"
  by (auto simp: objectEntries_def)

lemma map_of_objectEntries:
  assumes "distinct (map fst es)"
  shows "map_of (objectEntries es) = map_of es"
  using assms objectEntries_distinct[OF assms] objectEntries_set[of es]
  by (simp add: map_of_inject_set)

lemma map_of_mergeMin:
  "map_of (mergeMin letter count mc) = (map_of mc)(letter \<mapsto> max (existing mc letter) count)"
  by (induction mc) (auto simp: fun_eq_iff existing_def)

lemma merge_fold:
  "distinct (map fst es) \<Longrightarrow>
   map_of (fold (\<lambda>e mc. mergeMin (fst e) (snd e) mc) es mc) letter
     = (case map_of es letter of None \<Rightarrow> map_of mc letter
        | Some c \<Rightarrow> Some (max (existing mc letter) c))"
proof (induction es arbitrary: mc)
  case Nil
  show ?case by simp
next
  case (Cons e es)
  obtain l c where e: "e = (l, c)" by (cases e)
  from Cons.prems have d: "distinct (map fst es)" and ni: "l \<notin> fst ` set es" by (auto simp: e)
  have none: "map_of es l = None" using ni by (simp add: map_of_eq_None_iff)
  show ?case
    using Cons.IH[OF d, of "mergeMin l c mc"] none
    by (auto simp: e map_of_mergeMin existing_def split: option.splits)
qed

lemma map_of_mustContain:
  "map_of (mustContain (updateHardConstraints guess result hc)) letter
     = (if marksOf guess result letter [0..<length result] = 0 then map_of (mustContain hc) letter
        else Some (max (existing (mustContain hc) letter) (marksOf guess result letter [0..<length result])))"
  by (simp add: updateHardConstraints_def merge_fold objectEntries_distinct distinct_freqMapOf
      map_of_objectEntries map_of_freqMapOf)

subsection \<open>checkHardMode and submitGuess\<close>

lemma checkExact_Some:
  "checkExact g es = Some msg \<Longrightarrow>
     \<exists>e\<in>set es. jsCharAt g (fst e) \<noteq> snd e
        \<and> msg = ordinal (fst e + 1) @ '' letter must be '' @ toStr (snd e)"
  by (induction es) (auto split: if_splits)

lemma checkExact_None:
  "checkExact g es = None \<longleftrightarrow> (\<forall>e\<in>set es. jsCharAt g (fst e) = snd e)"
  by (induction es) (auto split: if_splits)

lemma checkContain_Some:
  "checkContain g cs = Some msg \<Longrightarrow>
     \<exists>c\<in>set cs. length (filter (\<lambda>l. [l] = fst c) g) < snd c
        \<and> msg = ''Guess must contain '' @ fst c"
  by (induction cs) (auto split: if_splits)

lemma checkContain_None:
  "checkContain g cs = None \<longleftrightarrow> (\<forall>c\<in>set cs. \<not> length (filter (\<lambda>l. [l] = fst c) g) < snd c)"
  by (induction cs) (auto split: if_splits)

lemma checkHardMode_snd: "snd (checkHardMode g st) = st"
  by (simp add: checkHardMode_def split: option.splits)

lemma checkHardMode_None:
  "fst (checkHardMode g st) = None \<longleftrightarrow>
     \<not> exactBroken g (hardConstraints st) \<and> \<not> containBroken g (hardConstraints st)"
proof -
  have a: "exactBroken g (hardConstraints st)
             \<longleftrightarrow> checkExact g (exactPositions (hardConstraints st)) \<noteq> None"
    by (simp add: exactBroken_def checkExact_None)
  have b: "containBroken g (hardConstraints st)
             \<longleftrightarrow> checkContain g (mustContain (hardConstraints st)) \<noteq> None"
    by (simp add: containBroken_def checkContain_None)
  show ?thesis
    by (cases "checkExact g (exactPositions (hardConstraints st))";
        cases "checkContain g (mustContain (hardConstraints st))")
       (simp_all add: checkHardMode_def a b)
qed

lemma checkHardMode_Some:
  assumes "fst (checkHardMode g st) = Some msg"
  shows "(\<exists>e\<in>set (exactPositions (hardConstraints st)). jsCharAt g (fst e) \<noteq> snd e
            \<and> msg = ordinal (fst e + 1) @ '' letter must be '' @ toStr (snd e))
       \<or> (\<exists>c\<in>set (mustContain (hardConstraints st)).
            length (filter (\<lambda>l. [l] = fst c) g) < snd c
            \<and> msg = ''Guess must contain '' @ fst c)"
proof (cases "checkExact g (exactPositions (hardConstraints st))")
  case None
  with assms have "checkContain g (mustContain (hardConstraints st)) = Some msg"
    by (simp add: checkHardMode_def split: option.splits)
  from checkContain_Some[OF this] show ?thesis by blast
next
  case (Some m)
  with assms have "m = msg" by (simp add: checkHardMode_def)
  with Some checkExact_Some[of g _ msg] show ?thesis by blast
qed

lemma submitGuess_hard:
  assumes "hardMode st" and "WORD_LENGTH \<le> currentCol st"
    and "isValidWord ws (currentGuess st)"
  shows "submitGuess ws st =
     (case fst (checkHardMode (currentGuess st) st) of
        Some msg \<Rightarrow> st\<lparr>effects := effects st @ [MpClearTyping, ShowToast msg, ShakeRow (currentRow st)]\<rparr>
      | None \<Rightarrow> st\<lparr>effects := effects st @ [MpClearTyping,
                   RevealRow (currentRow st) (currentGuess st)
                     (evaluateGuess (currentGuess st) (targetWord st))]\<rparr>)"
proof -
  let ?st1 = "st\<lparr>effects := effects st @ [MpClearTyping]\<rparr>"
  have c: "checkHardMode (currentGuess st) ?st1
            = (fst (checkHardMode (currentGuess st) st), ?st1)"
    by (simp add: checkHardMode_def split: option.splits)
  show ?thesis
    using assms
    by (simp add: submitGuess_def Let_def c emit_def split: option.splits)
qed

text \<open>
  C4. With hard mode on, a full row typed and a word of the list: when some recorded
  position does not hold its letter, or some recorded letter occurs fewer times than its
  minimum, \<open>submitGuess\<close> shows a message of the form ``<ordinal> letter must be
  <letter>'' for such a position or ``Guess must contain <letter>'' for such a letter,
  shakes the row and changes nothing else: the row is not revealed (so the guess is not
  evaluated, and the callback that records it locally and remotely is not started) and
  \<open>currentRow\<close> stays. When no constraint is broken the row is revealed with the result
  of \<open>evaluateGuess\<close>.
\<close>

theorem submitGuess_hard_mode:
  assumes "hardMode st" and "WORD_LENGTH \<le> currentCol st"
    and "isValidWord ws (currentGuess st)"
  shows "(exactBroken (currentGuess st) (hardConstraints st)
            \<or> containBroken (currentGuess st) (hardConstraints st)
          \<longrightarrow> (\<exists>msg. submitGuess ws st
                       = st\<lparr>effects := effects st @ [MpClearTyping, ShowToast msg, ShakeRow (currentRow st)]\<rparr>
                 \<and> ((\<exists>e\<in>set (exactPositions (hardConstraints st)).
                        jsCharAt (currentGuess st) (fst e) \<noteq> snd e
                        \<and> msg = ordinal (fst e + 1) @ '' letter must be '' @ toStr (snd e))
                    \<or> (\<exists>c\<in>set (mustContain (hardConstraints st)).
                        length (filter (\<lambda>l. [l] = fst c) (currentGuess st)) < snd c
                        \<and> msg = ''Guess must contain '' @ fst c))))
       \<and> (\<not> exactBroken (currentGuess st) (hardConstraints st)
            \<and> \<not> containBroken (currentGuess st) (hardConstraints st)
          \<longrightarrow> submitGuess ws st
                = st\<lparr>effects := effects st @ [MpClearTyping,
                        RevealRow (currentRow st) (currentGuess st)
                          (evaluateGuess (currentGuess st) (targetWord st))]\<rparr>)"
proof (intro conjI impI)
  assume "exactBroken (currentGuess st) (hardConstraints st)
            \<or> containBroken (currentGuess st) (hardConstraints st)"
  then have "fst (checkHardMode (currentGuess st) st) \<noteq> None"
    by (simp add: checkHardMode_None)
  then obtain msg where m: "fst (checkHardMode (currentGuess st) st) = Some msg" by blast
  from checkHardMode_Some[OF m] submitGuess_hard[OF assms] m
  show "\<exists>msg. submitGuess ws st
                       = st\<lparr>effects := effects st @ [MpClearTyping, ShowToast msg, ShakeRow (currentRow st)]\<rparr>
                 \<and> ((\<exists>e\<in>set (exactPositions (hardConstraints st)).
                        jsCharAt (currentGuess st) (fst e) \<noteq> snd e
                        \<and> msg = ordinal (fst e + 1) @ '' letter must be '' @ toStr (snd e))
                    \<or> (\<exists>c\<in>set (mustContain (hardConstraints st)).
                        length (filter (\<lambda>l. [l] = fst c) (currentGuess st)) < snd c
                        \<and> msg = ''Guess must contain '' @ fst c))"
    by (intro exI[of _ msg]) simp
next
  assume "\<not> exactBroken (currentGuess st) (hardConstraints st)
            \<and> \<not> containBroken (currentGuess st) (hardConstraints st)"
  then have "fst (checkHardMode (currentGuess st) st) = None"
    by (simp add: checkHardMode_None)
  with submitGuess_hard[OF assms]
  show "submitGuess ws st
                = st\<lparr>effects := effects st @ [MpClearTyping,
                        RevealRow (currentRow st) (currentGuess st)
                          (evaluateGuess (currentGuess st) (targetWord st))]\<rparr>"
    by simp
qed

theorem submitGuess_hard_mode_witness:
  "hardMode exampleRound \<and> WORD_LENGTH \<le> currentCol exampleRound
   \<and> isValidWord [''chase'', ''crane''] (currentGuess exampleRound)
   \<and> exactBroken (currentGuess exampleRound) (hardConstraints exampleRound)
   \<and> (\<exists>msg. submitGuess [''chase'', ''crane''] exampleRound
              = exampleRound\<lparr>effects := effects exampleRound
                    @ [MpClearTyping, ShowToast msg, ShakeRow (currentRow exampleRound)]\<rparr>)
   \<and> submitGuess [''chase'', ''crane''] exampleRound
        = exampleRound\<lparr>effects := [MpClearTyping, ShowToast ''2nd letter must be R'', ShakeRow 1]\<rparr>
   \<and> submitGuess [''chase'', ''crane''] (exampleRound\<lparr>currentGuess := ''CRANE''\<rparr>)
        = exampleRound\<lparr>currentGuess := ''CRANE'',
            effects := [MpClearTyping, RevealRow 1 ''CRANE'' (evaluateGuess ''CRANE'' ''CRANE'')]\<rparr>"
proof -
  let ?ws = "[''chase'', ''crane'']"
  let ?st2 = "exampleRound\<lparr>currentGuess := ''CRANE''\<rparr>"
  have h1: "hardMode exampleRound" and h2: "WORD_LENGTH \<le> currentCol exampleRound"
    by (simp_all add: exampleRound_def WORD_LENGTH_def)
  have h3: "isValidWord ?ws (currentGuess exampleRound)" by code_simp
  have b: "exactBroken (currentGuess exampleRound) (hardConstraints exampleRound)" by code_simp
  have h1': "hardMode ?st2" and h2': "WORD_LENGTH \<le> currentCol ?st2"
    by (simp_all add: exampleRound_def WORD_LENGTH_def)
  have h3': "isValidWord ?ws (currentGuess ?st2)" by code_simp
  have nb: "\<not> exactBroken (currentGuess ?st2) (hardConstraints ?st2)
            \<and> \<not> containBroken (currentGuess ?st2) (hardConstraints ?st2)" by code_simp
  from submitGuess_hard_mode[OF h1 h2 h3] b
  have r1: "\<exists>msg. submitGuess ?ws exampleRound
              = exampleRound\<lparr>effects := effects exampleRound
                    @ [MpClearTyping, ShowToast msg, ShakeRow (currentRow exampleRound)]\<rparr>"
    by blast
  have r2: "submitGuess ?ws exampleRound
        = exampleRound\<lparr>effects := [MpClearTyping, ShowToast ''2nd letter must be R'', ShakeRow 1]\<rparr>"
    by code_simp
  from submitGuess_hard_mode[OF h1' h2' h3'] nb
  have "submitGuess ?ws ?st2
          = ?st2\<lparr>effects := effects ?st2 @ [MpClearTyping,
                        RevealRow (currentRow ?st2) (currentGuess ?st2)
                          (evaluateGuess (currentGuess ?st2) (targetWord ?st2))]\<rparr>"
    by blast
  then have r3: "submitGuess ?ws ?st2
        = exampleRound\<lparr>currentGuess := ''CRANE'',
            effects := [MpClearTyping, RevealRow 1 ''CRANE'' (evaluateGuess ''CRANE'' ''CRANE'')]\<rparr>"
    by (simp add: exampleRound_def)
  show ?thesis using h1 h2 h3 b r1 r2 r3 by blast
qed

text \<open>
  C10. \<open>checkHardMode\<close> returns a message or \<open>null\<close> and leaves the state, with
  \<open>hardConstraints\<close>, as it was; \<open>submitGuess\<close>, which calls it, leaves \<open>hardConstraints\<close>
  as they were, whether it rejects or accepts.
\<close>

theorem checkHardMode_pure:
  "snd (checkHardMode guessWord st) = st
   \<and> (fst (checkHardMode guessWord st) = None \<or> (\<exists>msg. fst (checkHardMode guessWord st) = Some msg))
   \<and> hardConstraints (snd (checkHardMode guessWord st)) = hardConstraints st
   \<and> hardConstraints (submitGuess ws st) = hardConstraints st"
proof -
  have a: "snd (checkHardMode guessWord st) = st" by (rule checkHardMode_snd)
  have b: "fst (checkHardMode guessWord st) = None \<or> (\<exists>msg. fst (checkHardMode guessWord st) = Some msg)"
    by (cases "fst (checkHardMode guessWord st)") simp_all
  have c: "hardConstraints (submitGuess ws st) = hardConstraints st"
    by (simp add: submitGuess_def Let_def emit_def checkHardMode_def split: option.splits)
  show ?thesis using a b c by simp
qed

subsection \<open>Growth of the constraints\<close>

lemma objPut_set: "set (objPut k v es) \<subseteq> insert (k, v) (set es)"
  by (induction es) (auto split: if_splits)

lemma greenPositions_fold_set:
  "set (fold (\<lambda>i ep. if result ! i = correct then objPut i (jsCharAt guess i) ep else ep) js ep)
     \<subseteq> set ep \<union> {(i, jsCharAt guess i) | i. i \<in> set js \<and> result ! i = correct}"
proof (induction js arbitrary: ep)
  case Nil show ?case by simp
next
  case (Cons j js)
  show ?case using Cons[of "if result ! j = correct then objPut j (jsCharAt guess j) ep else ep"]
      objPut_set[of j "jsCharAt guess j" ep]
    by (auto split: if_splits)
qed

lemma marksOf_marksFor:
  assumes "length guess = length result"
  shows "marksOf guess result [c] [0..<length result] = marksFor isMarked c guess result"
proof -
  have "filter (\<lambda>i. toStr (jsCharAt guess i) = [c] \<and> isMarked (result ! i)) [0..<length result]
      = filter (\<lambda>i. guess ! i = c \<and> isMarked (result ! i)) [0..<length result]"
    using assms by (intro filter_cong) (auto simp: jsCharAt_def toStr_def)
  then show ?thesis by (simp add: marksOf_def marksFor_def)
qed

text \<open>
  C5. Within a round (the recorded positions agree with the target, which holds at the
  start of a round and is kept by every update), after a guess of length 5 evaluated
  against the target: every position marked correct is recorded with the guess's letter;
  every position recorded before keeps its letter; a letter with at least one correct or
  present mark gets as minimum the larger of its earlier minimum and its number of marks
  in this guess; no minimum is removed or lowered. \<open>startGame\<close> empties the constraints;
  the reveal callback is the one place that updates them; \<open>submitGuess\<close>, \<open>addLetter\<close>
  and \<open>deleteLetter\<close> do not touch them.
\<close>

theorem updateHardConstraints_grows:
  fixes guess target :: string and hc :: hard_constraints
  assumes lg: "length guess = 5" and lt: "length target = 5" and ag: "agreesWith target hc"
  defines "result \<equiv> evaluateGuess guess target"
  defines "hc' \<equiv> updateHardConstraints guess result hc"
  shows "(\<forall>i<5. result ! i = correct \<longrightarrow> map_of (exactPositions hc') i = Some (Some [guess ! i]))
       \<and> (\<forall>i v. map_of (exactPositions hc) i = Some v \<longrightarrow> map_of (exactPositions hc') i = Some v)
       \<and> (\<forall>c. 0 < marksFor isMarked c guess result \<longrightarrow>
              map_of (mustContain hc') [c]
                = Some (max (existing (mustContain hc) [c]) (marksFor isMarked c guess result)))
       \<and> (\<forall>letter m. map_of (mustContain hc) letter = Some m \<longrightarrow>
              (\<exists>m'. map_of (mustContain hc') letter = Some m' \<and> m \<le> m'))
       \<and> agreesWith target hc'
       \<and> hardConstraints (startGame answer st) = \<lparr>exactPositions = [], mustContain = []\<rparr>
       \<and> agreesWith target (hardConstraints (startGame answer st))
       \<and> hardConstraints (revealCallback mp guess result row st)
           = updateHardConstraints guess result (hardConstraints st)
       \<and> hardConstraints (submitGuess ws st) = hardConstraints st
       \<and> hardConstraints (addLetter l st) = hardConstraints st
       \<and> hardConstraints (deleteLetter st) = hardConstraints st"
proof -
  have lgW: "length guess = WORD_LENGTH" and ltW: "length target = WORD_LENGTH"
    using lg lt by (simp_all add: WORD_LENGTH_def)
  have lres: "length result = 5"
    using evaluateGuess_counts(1)[OF lgW ltW] by (simp add: result_def WORD_LENGTH_def)
  have corr: "\<forall>j<5. result ! j = correct \<longleftrightarrow> guess ! j = target ! j"
    using evaluateGuess_counts(2)[OF lgW ltW] by (simp add: result_def WORD_LENGTH_def)
  have ep: "map_of (exactPositions hc') i
      = (if i < 5 \<and> result ! i = correct then Some (Some [guess ! i]) else map_of (exactPositions hc) i)" for i
    using lg by (simp add: hc'_def updateHardConstraints_def map_of_greenPositions lres jsCharAt_def)
  have p1: "\<forall>i<5. result ! i = correct \<longrightarrow> map_of (exactPositions hc') i = Some (Some [guess ! i])"
    by (simp add: ep)
  have old: "snd e = jsCharAt target (fst e)" if "e \<in> set (exactPositions hc)" for e
    using ag that by (simp add: agreesWith_def list_all_iff)
  have p2: "\<forall>i v. map_of (exactPositions hc) i = Some v \<longrightarrow> map_of (exactPositions hc') i = Some v"
  proof (intro allI impI)
    fix i v assume m: "map_of (exactPositions hc) i = Some v"
    then have "(i, v) \<in> set (exactPositions hc)" by (rule map_of_SomeD)
    from old[OF this] have v: "v = jsCharAt target i" by simp
    show "map_of (exactPositions hc') i = Some v"
    proof (cases "i < 5 \<and> result ! i = correct")
      case True
      with corr have "guess ! i = target ! i" by blast
      with True lt v show ?thesis by (simp add: ep jsCharAt_def)
    next
      case False
      with m show ?thesis by (auto simp: ep)
    qed
  qed
  have mc: "map_of (mustContain hc') [c]
      = (if marksFor isMarked c guess result = 0 then map_of (mustContain hc) [c]
         else Some (max (existing (mustContain hc) [c]) (marksFor isMarked c guess result)))" for c
    using marksOf_marksFor[of guess result c] lg lres
    by (simp add: hc'_def map_of_mustContain)
  have p3: "\<forall>c. 0 < marksFor isMarked c guess result \<longrightarrow>
              map_of (mustContain hc') [c]
                = Some (max (existing (mustContain hc) [c]) (marksFor isMarked c guess result))"
    by (simp add: mc)
  have p4: "\<forall>letter m. map_of (mustContain hc) letter = Some m \<longrightarrow>
              (\<exists>m'. map_of (mustContain hc') letter = Some m' \<and> m \<le> m')"
    by (auto simp: hc'_def map_of_mustContain existing_def)
  have p5: "agreesWith target hc'"
  proof -
    have "snd e = jsCharAt target (fst e)" if e: "e \<in> set (exactPositions hc')" for e
    proof -
      from e greenPositions_fold_set[of result guess "[0..<length result]" "exactPositions hc"]
      have "e \<in> set (exactPositions hc)
            \<or> (\<exists>i. e = (i, jsCharAt guess i) \<and> i < length result \<and> result ! i = correct)"
        by (auto simp: hc'_def updateHardConstraints_def greenPositions_def)
      then show ?thesis
      proof
        assume "e \<in> set (exactPositions hc)" then show ?thesis by (rule old)
      next
        assume "\<exists>i. e = (i, jsCharAt guess i) \<and> i < length result \<and> result ! i = correct"
        then obtain i where i: "e = (i, jsCharAt guess i)" "i < 5" "result ! i = correct"
          using lres by auto
        with corr have "guess ! i = target ! i" by blast
        with i lg lt show ?thesis by (simp add: jsCharAt_def)
      qed
    qed
    then show ?thesis by (simp add: agreesWith_def list_all_iff)
  qed
  have p6: "hardConstraints (startGame answer st) = \<lparr>exactPositions = [], mustContain = []\<rparr>"
    by (simp add: startGame_def emit_def)
  have p7: "agreesWith target (hardConstraints (startGame answer st))"
    by (simp add: p6 agreesWith_def)
  have p8: "hardConstraints (revealCallback mp guess result row st)
           = updateHardConstraints guess result (hardConstraints st)"
    by (simp add: revealCallback_def Let_def emit_def)
  have p9: "hardConstraints (submitGuess ws st) = hardConstraints st"
    by (simp add: submitGuess_def Let_def emit_def checkHardMode_def split: option.splits)
  have p10: "hardConstraints (addLetter l st) = hardConstraints st"
    by (simp add: addLetter_def emit_def)
  have p11: "hardConstraints (deleteLetter st) = hardConstraints st"
    by (simp add: deleteLetter_def emit_def)
  show ?thesis using p1 p2 p3 p4 p5 p6 p7 p8 p9 p10 p11 by blast
qed

theorem updateHardConstraints_grows_witness:
  "length ''TRACE'' = 5 \<and> length ''CRANE'' = 5 \<and> agreesWith ''CRANE'' afterBrows
   \<and> evaluateGuess ''TRACE'' ''CRANE'' ! 2 = correct
   \<and> map_of (exactPositions (updateHardConstraints ''TRACE'' (evaluateGuess ''TRACE'' ''CRANE'') afterBrows)) 2
        = Some (Some ''A'')
   \<and> map_of (exactPositions afterBrows) 1 = Some (Some ''R'')
   \<and> map_of (exactPositions (updateHardConstraints ''TRACE'' (evaluateGuess ''TRACE'' ''CRANE'') afterBrows)) 1
        = Some (Some ''R'')
   \<and> 0 < marksFor isMarked CHR ''C'' ''TRACE'' (evaluateGuess ''TRACE'' ''CRANE'')
   \<and> map_of (mustContain (updateHardConstraints ''TRACE'' (evaluateGuess ''TRACE'' ''CRANE'') afterBrows)) ''C''
        = Some (max (existing (mustContain afterBrows) ''C'')
                  (marksFor isMarked CHR ''C'' ''TRACE'' (evaluateGuess ''TRACE'' ''CRANE'')))
   \<and> agreesWith ''CRANE'' (updateHardConstraints ''TRACE'' (evaluateGuess ''TRACE'' ''CRANE'') afterBrows)
   \<and> updateHardConstraints ''TRACE'' (evaluateGuess ''TRACE'' ''CRANE'') afterBrows
        = \<lparr>exactPositions = [(1, Some ''R''), (2, Some ''A''), (4, Some ''E'')],
           mustContain = [(''R'', 1), (''A'', 1), (''C'', 1), (''E'', 1)]\<rparr>"
proof -
  let ?res = "evaluateGuess ''TRACE'' ''CRANE''"
  let ?hc' = "updateHardConstraints ''TRACE'' ?res afterBrows"
  have l: "length ''TRACE'' = 5" "length ''CRANE'' = 5" by simp_all
  have ag: "agreesWith ''CRANE'' afterBrows" by code_simp
  have r2: "?res ! 2 = correct" by code_simp
  have o1: "map_of (exactPositions afterBrows) 1 = Some (Some ''R'')" by code_simp
  have m: "0 < marksFor isMarked CHR ''C'' ''TRACE'' ?res" by code_simp
  have v: "?hc' = \<lparr>exactPositions = [(1, Some ''R''), (2, Some ''A''), (4, Some ''E'')],
           mustContain = [(''R'', 1), (''A'', 1), (''C'', 1), (''E'', 1)]\<rparr>"
    by code_simp
  note t = updateHardConstraints_grows[OF l ag]
  from t r2 have a: "map_of (exactPositions ?hc') 2 = Some (Some [''TRACE'' ! 2])" by simp
  then have a': "map_of (exactPositions ?hc') 2 = Some (Some ''A'')" by simp
  from t o1 have b: "map_of (exactPositions ?hc') 1 = Some (Some ''R'')" by blast
  from t m have c: "map_of (mustContain ?hc') ''C''
        = Some (max (existing (mustContain afterBrows) ''C'') (marksFor isMarked CHR ''C'' ''TRACE'' ?res))"
    by blast
  from t have d: "agreesWith ''CRANE'' ?hc'" by blast
  show ?thesis using l ag r2 a' o1 b m c d v by blast
qed


section \<open>Multiplayer: bookkeeping of subscriptions\<close>

text \<open>The invariant \<open>bookkept\<close> holds initially and is kept by every modelled function that
  attaches or detaches a callback, so it holds in every state these functions reach.\<close>

lemma bookkept_initial: "bookkept initialClient"
  by (simp add: bookkept_def initialClient_def)

lemma bookkept_say: "bookkept st \<Longrightarrow> bookkept (say us st)"
  by (simp add: bookkept_def say_def)

lemma bookkept_issue: "bookkept st \<Longrightarrow> bookkept (issue w st)"
  by (simp add: bookkept_def issue_def)

lemma bookkept_off: "bookkept st \<Longrightarrow> bookkept (off l st)"
  by (auto simp: bookkept_def off_def dest: notin_set_remove1)

lemma bookkept_listen:
  assumes "bookkept st"
  shows "bookkept (listen p h st)"
proof -
  have fresh: "(p, h, nextFn st) \<notin> set (mpListeners st)"
    using assms by (auto simp: bookkept_def list_all_iff)
  then have "(p, h, nextFn st) \<notin> set (subs st)"
    using assms by (auto simp: bookkept_def)
  then show ?thesis
    using assms by (auto simp: bookkept_def listen_def Let_def list_all_iff)
qed

lemma bookkept_flags:
  "bookkept st \<Longrightarrow>
   bookkept (st\<lparr>mpActive := a\<rparr>) \<and> bookkept (st\<lparr>mpDone := b\<rparr>)
   \<and> bookkept (st\<lparr>mpIsWordSetter := c\<rparr>) \<and> bookkept (st\<lparr>mpLocalGuesses := g\<rparr>)
   \<and> bookkept (st\<lparr>mpPlayerId := i\<rparr>)"
  by (simp add: bookkept_def)

lemma bookkept_enterLobby: "bookkept st \<Longrightarrow> bookkept (enterLobby st)"
  by (simp add: enterLobby_def listenLobby_def bookkept_listen bookkept_say bookkept_flags)

lemma bookkept_showMpWatchingOverlay: "bookkept st \<Longrightarrow> bookkept (showMpWatchingOverlay st)"
  by (simp add: showMpWatchingOverlay_def startLiveBoardsListener_def Let_def
      bookkept_listen bookkept_say)

lemma bookkept_listenForRoundEnd: "bookkept st \<Longrightarrow> bookkept (listenForRoundEnd st)"
  by (simp add: listenForRoundEnd_def Let_def bookkept_listen)

lemma bookkept_startMpRound:
  assumes "bookkept st"
  shows "bookkept (startMpRound party st)"
proof -
  have "bookkept (st\<lparr>mpLocalGuesses := [], mpDone := False, mpIsWordSetter := False\<rparr>)"
    using assms by (simp add: bookkept_def)
  then show ?thesis
    by (simp add: startMpRound_def startLiveBoardsListener_def bookkept_listenForRoundEnd
        bookkept_listen)
qed

lemma bookkept_handleChoosingPhase: "bookkept st \<Longrightarrow> bookkept (handleChoosingPhase party st)"
  by (simp add: handleChoosingPhase_def Let_def bookkept_listen bookkept_say bookkept_flags)

lemma bookkept_showMpResults: "bookkept st \<Longrightarrow> bookkept (showMpResults party st)"
  by (simp add: showMpResults_def Let_def bookkept_listen bookkept_say)

lemma bookkept_allDoneFn: "bookkept st \<Longrightarrow> bookkept (allDoneFn l ps st)"
  by (simp add: allDoneFn_def Let_def bookkept_issue bookkept_off)

lemma bookkept_relayFn: "bookkept st \<Longrightarrow> bookkept (relayFn l sid w pSnap r st)"
  by (simp add: relayFn_def Let_def bookkept_issue bookkept_off split: option.splits)

lemma bookkept_status:
  assumes "bookkept st"
  shows "bookkept (lobbyStatusFn l s st)" and "bookkept (choosingStatusFn l s st)"
    and "bookkept (setterStatusFn l s st)" and "bookkept (watchStatusFn l s st)"
    and "bookkept (roundEndStatusFn l s st)" and "bookkept (nextRoundFn l s st)"
  using assms
  by (simp_all add: lobbyStatusFn_def choosingStatusFn_def setterStatusFn_def watchStatusFn_def
      roundEndStatusFn_def nextRoundFn_def bookkept_say bookkept_off
      bookkept_showMpWatchingOverlay bookkept_enterLobby)

lemma bookkept_distinct: "bookkept st \<Longrightarrow> distinct (subs st)"
  by (simp add: bookkept_def)

section \<open>Multiplayer: the round barrier and leaving\<close>



lemma off_detaches: "distinct (subs st) \<Longrightarrow> l \<notin> set (subs (off l st))"
  by (simp add: off_def)







subsection \<open>leaveParty and cleanupMp\<close>


lemma fold_runCleanup_writes:
  "writes (fold runCleanup ls st) = writes st"
  by (induction ls arbitrary: st) (auto simp: runCleanup_def off_def say_def split: handler.splits)






section \<open>Multiplayer: status callbacks\<close>


lemma calls_say: "calls (say us st) = calls st @ concat (map (\<lambda>u. case u of Call p \<Rightarrow> [p] | _ \<Rightarrow> []) us)"
  by (simp add: calls_def say_def)

lemma calls_off [simp]: "calls (off l st) = calls st"
  by (simp add: calls_def off_def)

lemma calls_listen [simp]: "calls (listen p h st) = calls st"
  by (simp add: calls_def listen_def Let_def)

lemma subs_say [simp]: "subs (say us st) = subs st"
  by (simp add: say_def)

lemma subs_off [simp]: "subs (off l st) = remove1 l (subs st)"
  by (simp add: off_def)

lemma subs_listen [simp]: "subs (listen p h st) = subs st @ [(p, h, nextFn st)]"
  by (simp add: listen_def Let_def)

lemma nextFn_say [simp]: "nextFn (say us st) = nextFn st"
  by (simp add: say_def)

lemma nextFn_off [simp]: "nextFn (off l st) = nextFn st"
  by (simp add: off_def)

lemma nextFn_listen [simp]: "nextFn (listen p h st) = nextFn st + 1"
  by (simp add: listen_def Let_def)

lemma mpIsHost_say [simp]: "mpIsHost (say us st) = mpIsHost st"
  by (simp add: say_def)

lemma mpIsHost_off [simp]: "mpIsHost (off l st) = mpIsHost st"
  by (simp add: off_def)

lemma mpIsHost_listen [simp]: "mpIsHost (listen p h st) = mpIsHost st"
  by (simp add: listen_def Let_def)

lemma calls_showMpWatchingOverlay [simp]: "calls (showMpWatchingOverlay st) = calls st"
  by (simp add: showMpWatchingOverlay_def startLiveBoardsListener_def Let_def calls_say)

lemma calls_mpActive [simp]: "calls (st\<lparr>mpActive := b\<rparr>) = calls st"
  by (simp add: calls_def)

lemma calls_enterLobby [simp]: "calls (enterLobby st) = calls (st)"
  by (simp add: enterLobby_def listenLobby_def calls_say)





















section \<open>Multiplayer: the secret word and the relay\<close>

lemma resetsFor_Cons:
  "resetsFor b sid (a # ids)
     = (PlayerField a Done, JBool (Some a = sid)) # (PlayerField a Won, JBool False)
       # (PlayerField a GuessCount, JNum 0) # (PlayerField a Guesses, JEmptyObj)
       # (PlayerField a IsWordSetter, JBool (Some a = sid))
       # (if b then [(PlayerField a ProposedWord, JNullVal)] else []) @ resetsFor b sid ids"
  by (simp add: resetsFor_def)

lemma map_of_resetsFor:
  "pid \<in> set ids \<Longrightarrow> resetValue b sid pid f = Some v \<Longrightarrow>
   map_of (resetsFor b sid ids) (PlayerField pid f) = Some v"
proof (induction ids)
  case Nil
  then show ?case by simp
next
  case (Cons a ids)
  show ?case
  proof (cases "a = pid")
    case True
    with Cons.prems(2) show ?thesis
      by (cases f; cases b) (auto simp: resetsFor_Cons resetValue_def)
  next
    case False
    with Cons have ih: "map_of (resetsFor b sid ids) (PlayerField pid f) = Some v"
      by simp
    from False ih show ?thesis
      by (cases b) (simp_all add: resetsFor_Cons)
  qed
qed

lemma keys_resetsFor:
  "e \<in> set (resetsFor b sid ids) \<Longrightarrow> \<exists>pid f. pid \<in> set ids \<and> fst e = PlayerField pid f"
  by (auto simp: resetsFor_def split: if_splits)

lemma fire_Relay:
  "l \<in> set (subs st) \<Longrightarrow> fst (snd l) = Relay sid \<Longrightarrow>
   fire l (ProposedVal w pSnap r) st = relayFn l sid w pSnap r st"
  by (simp add: fire_def)

lemma relay_rejects:
  "proposed = None \<or> (\<exists>w. proposed = Some w \<and> \<not> fiveLetters w) \<Longrightarrow>
   relayFn l sid proposed pSnap r st = st"
  by (auto simp: relayFn_def)

lemma relay_accepts:
  "fiveLetters w \<Longrightarrow>
   relayFn l sid (Some w) (Some ids) Ok st
     = st\<lparr>subs := remove1 l (subs st), writes := writes st @ relayWrites sid w ids\<rparr>"
  by (auto simp: relayFn_def relayWrites_def fiveLetters_def issue_def off_def Let_def)

lemma subs_handleChoosingPhase:
  "mpIsHost st \<Longrightarrow> Some (mpPlayerId st) \<noteq> setterOf party \<Longrightarrow>
   subs (handleChoosingPhase party st)
     = subs st @ [(Status, ChoosingStatus, nextFn st),
                  (PlayerField (toStr (setterOf party)) ProposedWord, Relay (setterOf party), nextFn st + 1)]"
  by (simp add: handleChoosingPhase_def Let_def listen_def say_def)

text \<open>
  C3. The host's relay callback, attached by \<open>handleChoosingPhase\<close> on the setter's
  \<open>proposedWord\<close> when the host is not the setter: a value that is \<open>null\<close> or not five
  letters is ignored; on five letters (the reads and the first update resolving) it
  detaches itself and issues two updates: the reset object, which for every player id of
  the snapshot sets \<open>done\<close> and \<open>isWordSetter\<close> to whether the id is the setter's, \<open>won\<close>
  to false, \<open>guessCount\<close> to 0, \<open>guesses\<close> to the empty object and \<open>proposedWord\<close> to
  \<open>null\<close>, and writes nothing else; then \<open>targetWord\<close>, the word upper-cased, with
  \<open>status = playing\<close>.
\<close>

theorem relay_authoritative_update:
  assumes "l \<in> set (subs st)" and "fst (snd l) = Relay setterId"
  shows "(proposed = None \<or> (\<exists>w. proposed = Some w \<and> \<not> fiveLetters w)
            \<longrightarrow> fire l (ProposedVal proposed pSnap r) st = st)
       \<and> (fiveLetters w \<longrightarrow>
            fire l (ProposedVal (Some w) (Some ids) Ok) st
              = st\<lparr>subs := remove1 l (subs st),
                   writes := writes st @
                     [Update (resetsFor True setterId ids),
                      Update [(TargetWord, JStr (toUpperCase w)), (Status, JStr ''playing'')]]\<rparr>)
       \<and> (\<forall>pid\<in>set ids.
              map_of (resetsFor True setterId ids) (PlayerField pid Done) = Some (JBool (Some pid = setterId))
            \<and> map_of (resetsFor True setterId ids) (PlayerField pid Won) = Some (JBool False)
            \<and> map_of (resetsFor True setterId ids) (PlayerField pid GuessCount) = Some (JNum 0)
            \<and> map_of (resetsFor True setterId ids) (PlayerField pid Guesses) = Some JEmptyObj
            \<and> map_of (resetsFor True setterId ids) (PlayerField pid IsWordSetter)
                 = Some (JBool (Some pid = setterId))
            \<and> map_of (resetsFor True setterId ids) (PlayerField pid ProposedWord) = Some JNullVal)
       \<and> (\<forall>e\<in>set (resetsFor True setterId ids). \<exists>pid f. pid \<in> set ids \<and> fst e = PlayerField pid f)
       \<and> (mpIsHost c \<and> Some (mpPlayerId c) \<noteq> setterOf party \<longrightarrow>
            (PlayerField (toStr (setterOf party)) ProposedWord, Relay (setterOf party), nextFn c + 1)
              \<in> set (subs (handleChoosingPhase party c)))"
proof -
  have a: "proposed = None \<or> (\<exists>w. proposed = Some w \<and> \<not> fiveLetters w)
            \<longrightarrow> fire l (ProposedVal proposed pSnap r) st = st"
    using relay_rejects[of proposed l setterId pSnap r st] by (simp add: fire_Relay[OF assms])
  have b: "fiveLetters w \<longrightarrow>
            fire l (ProposedVal (Some w) (Some ids) Ok) st
              = st\<lparr>subs := remove1 l (subs st),
                   writes := writes st @
                     [Update (resetsFor True setterId ids),
                      Update [(TargetWord, JStr (toUpperCase w)), (Status, JStr ''playing'')]]\<rparr>"
    using relay_accepts[of w l setterId ids st]
    by (simp add: fire_Relay[OF assms] relayWrites_def)
  have c: "\<forall>pid\<in>set ids.
              map_of (resetsFor True setterId ids) (PlayerField pid Done) = Some (JBool (Some pid = setterId))
            \<and> map_of (resetsFor True setterId ids) (PlayerField pid Won) = Some (JBool False)
            \<and> map_of (resetsFor True setterId ids) (PlayerField pid GuessCount) = Some (JNum 0)
            \<and> map_of (resetsFor True setterId ids) (PlayerField pid Guesses) = Some JEmptyObj
            \<and> map_of (resetsFor True setterId ids) (PlayerField pid IsWordSetter)
                 = Some (JBool (Some pid = setterId))
            \<and> map_of (resetsFor True setterId ids) (PlayerField pid ProposedWord) = Some JNullVal"
    by (simp add: map_of_resetsFor resetValue_def)
  have d: "\<forall>e\<in>set (resetsFor True setterId ids). \<exists>pid f. pid \<in> set ids \<and> fst e = PlayerField pid f"
    using keys_resetsFor by blast
  have e: "mpIsHost c \<and> Some (mpPlayerId c) \<noteq> setterOf party \<longrightarrow>
            (PlayerField (toStr (setterOf party)) ProposedWord, Relay (setterOf party), nextFn c + 1)
              \<in> set (subs (handleChoosingPhase party c))"
    by (simp add: subs_handleChoosingPhase)
  show ?thesis using a b c d e by blast
qed

theorem relay_authoritative_update_witness:
  "(PlayerField ''u1'' ProposedWord, Relay (Some ''u1''), 1) \<in> set (subs hostChoosing)
   \<and> fire (PlayerField ''u1'' ProposedWord, Relay (Some ''u1''), 1)
        (ProposedVal (Some ''CR4NE'') (Some [''h1'', ''u1'']) Ok) hostChoosing = hostChoosing
   \<and> fiveLetters ''Crane''
   \<and> fire (PlayerField ''u1'' ProposedWord, Relay (Some ''u1''), 1)
        (ProposedVal (Some ''Crane'') (Some [''h1'', ''u1'']) Ok) hostChoosing
        = hostChoosing\<lparr>subs := [(Status, ChoosingStatus, 0)],
            writes := [Update (resetsFor True (Some ''u1'') [''h1'', ''u1'']),
                       Update [(TargetWord, JStr ''CRANE''), (Status, JStr ''playing'')]]\<rparr>
   \<and> map_of (resetsFor True (Some ''u1'') [''h1'', ''u1'']) (PlayerField ''u1'' Done) = Some (JBool True)
   \<and> map_of (resetsFor True (Some ''u1'') [''h1'', ''u1'']) (PlayerField ''h1'' Done) = Some (JBool False)
   \<and> map_of (resetsFor True (Some ''u1'') [''h1'', ''u1'']) (PlayerField ''h1'' ProposedWord) = Some JNullVal
   \<and> mpIsHost hostChoosing"
proof -
  let ?l = "(PlayerField ''u1'' ProposedWord, Relay (Some ''u1''), 1::nat)"
  let ?ids = "[''h1'', ''u1'']"
  have m: "?l \<in> set (subs hostChoosing)" by code_simp
  have k: "fst (snd ?l) = Relay (Some ''u1'')" by simp
  have f: "fiveLetters ''Crane''" by code_simp
  have nf: "\<not> fiveLetters ''CR4NE''" by code_simp
  have h: "mpIsHost hostChoosing" by code_simp
  have s0: "remove1 ?l (subs hostChoosing) = [(Status, ChoosingStatus, 0)]" by code_simp
  have w0: "writes hostChoosing = []" by code_simp
  have up: "toUpperCase ''Crane'' = ''CRANE''" by code_simp
  note t = relay_authoritative_update[OF m k, of "Some ''CR4NE''" "Some ?ids" Ok "''Crane''" ?ids]
  from t nf have a: "fire ?l (ProposedVal (Some ''CR4NE'') (Some ?ids) Ok) hostChoosing = hostChoosing"
    by blast
  from t f have b: "fire ?l (ProposedVal (Some ''Crane'') (Some ?ids) Ok) hostChoosing
        = hostChoosing\<lparr>subs := remove1 ?l (subs hostChoosing),
            writes := writes hostChoosing @
              [Update (resetsFor True (Some ''u1'') ?ids),
               Update [(TargetWord, JStr (toUpperCase ''Crane'')), (Status, JStr ''playing'')]]\<rparr>"
    by blast
  from t have c: "\<forall>pid\<in>set ?ids.
        map_of (resetsFor True (Some ''u1'') ?ids) (PlayerField pid Done) = Some (JBool (Some pid = Some ''u1''))
      \<and> map_of (resetsFor True (Some ''u1'') ?ids) (PlayerField pid ProposedWord) = Some JNullVal"
    by blast
  from c have c1: "map_of (resetsFor True (Some ''u1'') ?ids) (PlayerField ''u1'' Done) = Some (JBool True)"
    and c2: "map_of (resetsFor True (Some ''u1'') ?ids) (PlayerField ''h1'' Done) = Some (JBool False)"
    and c3: "map_of (resetsFor True (Some ''u1'') ?ids) (PlayerField ''h1'' ProposedWord) = Some JNullVal"
    by simp_all
  from b have b': "fire ?l (ProposedVal (Some ''Crane'') (Some ?ids) Ok) hostChoosing
        = hostChoosing\<lparr>subs := [(Status, ChoosingStatus, 0)],
            writes := [Update (resetsFor True (Some ''u1'') ?ids),
                       Update [(TargetWord, JStr ''CRANE''), (Status, JStr ''playing'')]]\<rparr>"
    by (simp only: s0 w0 up append_Nil)
  show ?thesis using m a f b' c1 c2 c3 h by blast
qed






end
